theory Spec2Isabelle
  imports Complex_Main
begin

unbundle bit_operations_syntax

section \<open>A CSG engine on BSP trees: the embedding\<close>

text \<open>
  The engine is the JavaScript module that exports \<open>Vertex\<close>, \<open>Polygon\<close>, \<open>BSPNode\<close>
  and \<open>CSG\<close>, together with the \<open>Vec3\<close> class of the vector library it imports.

  JavaScript numbers are modelled as real numbers: rounding, infinities and NaN of the
  IEEE doubles are outside the model. The two divisions of the code are written as the
  code has them; \<open>normalize\<close> guards its own (\<open>len !== 0\<close>), and the one in
  \<open>splitPolygon\<close> is only reached with a divisor of absolute value above
  \<open>2 * EPSILON\<close> (lemma \<open>crossing_divisor\<close> below).

  The recursive methods of \<open>BSPNode\<close> are modelled without a bound on the depth of
  the recursion: the exhaustion of the JavaScript call stack (a RangeError) is outside
  the model too. The only error of the model is the TypeError of a property read on
  \<open>undefined\<close>.
\<close>

subsection \<open>Vec3\<close>

text \<open>
  The methods of \<open>Vec3\<close> update the receiver and return it. Every call site of the
  engine applies them to a fresh \<open>clone()\<close> (or to the result of one), so they are
  modelled as functions on values. \<open>mul\<close> is the scalar branch of the method, the only
  one the engine uses.
\<close>

datatype vec3 = Vec3 (vx: real) (vy: real) (vz: real)

definition add :: "vec3 \<Rightarrow> vec3 \<Rightarrow> vec3" where
  "add a b = Vec3 (vx a + vx b) (vy a + vy b) (vz a + vz b)"

definition sub :: "vec3 \<Rightarrow> vec3 \<Rightarrow> vec3" where
  "sub a b = Vec3 (vx a - vx b) (vy a - vy b) (vz a - vz b)"

definition mul :: "vec3 \<Rightarrow> real \<Rightarrow> vec3" where
  "mul a s = Vec3 (vx a * s) (vy a * s) (vz a * s)"

definition dot :: "vec3 \<Rightarrow> vec3 \<Rightarrow> real" where
  "dot a b = vx a * vx b + vy a * vy b + vz a * vz b"

definition cross :: "vec3 \<Rightarrow> vec3 \<Rightarrow> vec3" where
  "cross a b = Vec3 (vy a * vz b - vz a * vy b)
                    (vz a * vx b - vx a * vz b)
                    (vx a * vy b - vy a * vx b)"

definition vlength :: "vec3 \<Rightarrow> real" where
  "vlength a = sqrt (vx a * vx a + vy a * vy a + vz a * vz a)"

definition normalize :: "vec3 \<Rightarrow> vec3" where
  "normalize a =
     (let len = vlength a
      in if len \<noteq> 0 then Vec3 (vx a / len) (vy a / len) (vz a / len) else a)"

subsection \<open>Vertex, plane, polygon\<close>

text \<open>
  A \<open>Vertex\<close> owns its position and normal (the constructor clones both) and a
  two-element \<open>uv\<close> array. Vertices are values here, and \<open>Vertex.clone\<close> is the identity
  on values. In the code the front ring of a split polygon holds the \<open>Vertex\<close> objects
  of the polygon it was cut from, so a later \<open>flip\<close> of the piece also negates the
  normals seen through that polygon. \<open>union\<close>, \<open>subtract\<close>, \<open>intersect\<close> and
  \<open>inverse\<close> work on deep clones and drop every polygon they split, so inside them no
  two polygons of a tree share a vertex and values behave as the objects do; the model
  does not follow a caller who splits polygons of their own through \<open>BSPNode\<close> and
  then flips a piece.
\<close>

record vertex =
  position :: vec3
  normal :: vec3
  uv :: "real \<times> real"

definition Vertex :: "vec3 \<Rightarrow> vec3 option \<Rightarrow> (real \<times> real) option \<Rightarrow> vertex" where
  "Vertex p n t =
     \<lparr>position = p,
      normal = (case n of Some m \<Rightarrow> m | None \<Rightarrow> Vec3 0 0 0),
      uv = (case t of Some c \<Rightarrow> c | None \<Rightarrow> (0, 0))\<rparr>"

definition Vertex_clone :: "vertex \<Rightarrow> vertex" where
  "Vertex_clone v = Vertex (position v) (Some (normal v)) (Some (uv v))"

text \<open>The object \<open>{ normal, w }\<close> that \<open>calculatePlane\<close> returns.\<close>

record plane =
  pnormal :: vec3
  pw :: real

text \<open>
  Polygons and planes are objects that the code shares and updates in place
  (\<open>flip\<close>, \<open>invert\<close>, and \<open>build\<close>, which stores the plane object of a polygon in a
  node). They live in a store: a polygon object holds its vertex array and the address
  of its plane object.
\<close>

type_synonym ref = nat

record polygon =
  vertices :: "vertex list"
  plane :: ref

record heap =
  polys :: "ref \<Rightarrow> polygon"
  planes :: "ref \<Rightarrow> plane"
  next_ref :: nat

datatype error = TypeError

text \<open>
  \<open>calculatePlane\<close> reads \<open>vertices[0]\<close>, \<open>vertices[1]\<close> and \<open>vertices[2]\<close>; on a
  shorter array the read of \<open>.position\<close> on \<open>undefined\<close> throws a TypeError, which is
  the guard of \<open>new_Polygon\<close>.
\<close>

definition calculatePlane :: "vertex list \<Rightarrow> plane" where
  "calculatePlane vs =
     (let v1 = sub (position (vs ! 1)) (position (vs ! 0));
          v2 = sub (position (vs ! 2)) (position (vs ! 0));
          n = normalize (cross v1 v2);
          w = dot n (position (vs ! 0))
      in \<lparr>pnormal = n, pw = w\<rparr>)"

text \<open>Allocation of a polygon object and of its plane object, at a fresh address each.\<close>

definition alloc_Polygon :: "vertex list \<Rightarrow> heap \<Rightarrow> ref \<times> heap" where
  "alloc_Polygon vs h =
     (let r = next_ref h
      in (r, \<lparr>polys = (polys h)(r := \<lparr>vertices = vs, plane = r\<rparr>),
              planes = (planes h)(r := calculatePlane vs),
              next_ref = Suc r\<rparr>))"

definition new_Polygon :: "vertex list \<Rightarrow> heap \<Rightarrow> error + ref \<times> heap" where
  "new_Polygon vs h = (if length vs < 3 then Inl TypeError else Inr (alloc_Polygon vs h))"

definition Polygon_clone :: "ref \<Rightarrow> heap \<Rightarrow> error + ref \<times> heap" where
  "Polygon_clone r h = new_Polygon (map Vertex_clone (vertices (polys h r))) h"

definition negate_plane :: "plane \<Rightarrow> plane" where
  "negate_plane pl = \<lparr>pnormal = mul (pnormal pl) (- 1), pw = - pw pl\<rparr>"

definition negate_normal :: "vertex \<Rightarrow> vertex" where
  "negate_normal v = v\<lparr>normal := mul (normal v) (- 1)\<rparr>"

definition flip_plane :: "ref \<Rightarrow> heap \<Rightarrow> heap" where
  "flip_plane a h = h\<lparr>planes := (planes h)(a := negate_plane (planes h a))\<rparr>"

definition flip :: "ref \<Rightarrow> heap \<Rightarrow> heap" where
  "flip r h =
     (let p = polys h r;
          h1 = h\<lparr>polys := (polys h)(r := p\<lparr>vertices := map negate_normal (rev (vertices p))\<rparr>)\<rparr>
      in flip_plane (plane p) h1)"

subsection \<open>splitPolygon\<close>

definition COPLANAR :: nat where "COPLANAR = 0"
definition FRONT :: nat where "FRONT = 1"
definition BACK :: nat where "BACK = 2"
definition SPANNING :: nat where "SPANNING = 3"

text \<open>
  \<open>const EPSILON = 1e-5\<close>: the literal denotes the double nearest to \<open>1/100000\<close>,
  which is \<open>5902958103587057 / 2 ^ 69\<close>.
\<close>

definition EPSILON :: real where "EPSILON = 5902958103587057 / 590295810358705651712"

definition interpolateVertex :: "vertex \<Rightarrow> vertex \<Rightarrow> real \<Rightarrow> vertex" where
  "interpolateVertex v1 v2 t =
     (let pos = add (mul (position v1) (1 - t)) (mul (position v2) t);
          nrm = add (mul (normal v1) (1 - t)) (mul (normal v2) t);
          c = (fst (uv v1) * (1 - t) + fst (uv v2) * t,
               snd (uv v1) * (1 - t) + snd (uv v2) * t)
      in Vertex pos (Some nrm) (Some c))"

text \<open>The callback of \<open>polygon.vertices.map\<close>: the type of one vertex.\<close>

definition classify :: "vec3 \<Rightarrow> real \<Rightarrow> vertex \<Rightarrow> nat" where
  "classify n w v =
     (let t = dot n (position v) - w
      in if t < - EPSILON then BACK else if t > EPSILON then FRONT else COPLANAR)"

text \<open>\<open>let type = 0; for (const t of types) type |= t\<close>\<close>

definition polygonType :: "nat list \<Rightarrow> nat" where
  "polygonType types = fold (\<lambda>t ty. ty OR t) types 0"

text \<open>
  One round of the loop of the SPANNING case, on the rings \<open>f\<close> and \<open>b\<close>. The back
  ring takes \<open>vi.clone()\<close> or \<open>vi\<close> itself, and \<open>v.clone()\<close>: the same values.
\<close>

definition split_step ::
  "vec3 \<Rightarrow> real \<Rightarrow> vertex list \<Rightarrow> nat list \<Rightarrow> nat \<Rightarrow> vertex list \<times> vertex list \<Rightarrow>
   vertex list \<times> vertex list" where
  "split_step n w vs types i fb =
     (let j = (i + 1) mod length vs;
          ti = types ! i; tj = types ! j;
          vi = vs ! i; vj = vs ! j;
          f1 = (if ti \<noteq> BACK then fst fb @ [vi] else fst fb);
          b1 = (if ti \<noteq> FRONT then snd fb @ [if ti \<noteq> BACK then Vertex_clone vi else vi]
                else snd fb)
      in if ti OR tj = SPANNING
         then (let t = (w - dot n (position vi)) / dot n (sub (position vj) (position vi));
                   v = interpolateVertex vi vj t
               in (f1 @ [v], b1 @ [Vertex_clone v]))
         else (f1, b1))"

definition split_rings ::
  "vec3 \<Rightarrow> real \<Rightarrow> vertex list \<Rightarrow> nat list \<Rightarrow> vertex list \<times> vertex list" where
  "split_rings n w vs types = fold (split_step n w vs types) [0..<length vs] ([], [])"

text \<open>
  The four array parameters of \<open>splitPolygon\<close> are references, and the callers pass
  the same array twice (\<open>build\<close> passes \<open>this.polygons\<close> as both coplanar arrays,
  \<open>clipPolygons\<close> passes \<open>front\<close> and \<open>back\<close> twice). The arrays are a store indexed by
  array names; \<open>push\<close> appends to the array of that name.
\<close>

type_synonym arrays = "nat \<Rightarrow> ref list"

definition push :: "nat \<Rightarrow> ref \<Rightarrow> arrays \<Rightarrow> arrays" where
  "push a r arrs = arrs(a := arrs a @ [r])"

text \<open>
  \<open>if (ring.length >= 3) target.push(new Polygon(ring))\<close>: under the guard the
  constructor reads inside the ring and cannot throw.
\<close>

definition emit_ring :: "nat \<Rightarrow> vertex list \<Rightarrow> arrays \<times> heap \<Rightarrow> arrays \<times> heap" where
  "emit_ring a ring s =
     (if length ring \<ge> 3
      then (let (r, h') = alloc_Polygon ring (snd s) in (push a r (fst s), h'))
      else s)"

text \<open>
  \<open>splitPolygon pl polygon coplanarFront coplanarBack front back\<close>, where \<open>pl\<close> is
  the address of \<open>this.plane\<close>.
\<close>

definition splitPolygon ::
  "ref \<Rightarrow> ref \<Rightarrow> nat \<Rightarrow> nat \<Rightarrow> nat \<Rightarrow> nat \<Rightarrow> arrays \<times> heap \<Rightarrow> arrays \<times> heap" where
  "splitPolygon pl polygon coplanarFront coplanarBack front back s =
     (let h = snd s;
          n = pnormal (planes h pl); w = pw (planes h pl);
          vs = vertices (polys h polygon);
          types = map (classify n w) vs;
          ty = polygonType types
      in if ty = COPLANAR
         then (push (if dot n (pnormal (planes h (plane (polys h polygon)))) > 0
                     then coplanarFront else coplanarBack) polygon (fst s), h)
         else if ty = FRONT then (push front polygon (fst s), h)
         else if ty = BACK then (push back polygon (fst s), h)
         else if ty = SPANNING
         then (let (f, b) = split_rings n w vs types
               in emit_ring back b (emit_ring front f s))
         else s)"

subsection \<open>BSPNode\<close>

text \<open>
  A node holds, in this order, \<open>plane\<close> (null, or the address of a plane object),
  \<open>front\<close> and \<open>back\<close> (null, or a node) and the array \<open>polygons\<close> of polygon
  addresses. Each tree is reached through one variable only, so nodes are values.
\<close>

datatype bsp = Node "ref option" "bsp option" "bsp option" "ref list"

text \<open>The node the constructor leaves when it is given no polygons.\<close>

definition empty_node :: bsp where
  "empty_node = Node None None None []"

text \<open>\<open>flip_all\<close> is the loop \<open>for (const poly of this.polygons) poly.flip()\<close>.\<close>

definition flip_all :: "ref list \<Rightarrow> heap \<Rightarrow> heap" where
  "flip_all ps h = fold flip ps h"

fun invert :: "bsp \<Rightarrow> heap \<Rightarrow> bsp \<times> heap" where
  "invert (Node pl fr bk ps) h =
     (let h1 = flip_all ps h;
          h2 = (case pl of None \<Rightarrow> h1 | Some a \<Rightarrow> flip_plane a h1);
          (fr', h3) = (case fr of None \<Rightarrow> (None, h2)
                       | Some t \<Rightarrow> (let (t', h') = invert t h2 in (Some t', h')));
          (bk', h4) = (case bk of None \<Rightarrow> (None, h3)
                       | Some t \<Rightarrow> (let (t', h') = invert t h3 in (Some t', h')))
      in (Node pl bk' fr' ps, h4))"

text \<open>
  The loop of \<open>clipPolygons\<close> over its argument: \<open>front\<close> is array 0 and \<open>back\<close>
  array 1, passed as \<open>(front, back, front, back)\<close>.
\<close>

definition clip_split :: "ref \<Rightarrow> ref list \<Rightarrow> heap \<Rightarrow> arrays \<times> heap" where
  "clip_split pl polys0 h =
     fold (\<lambda>poly. splitPolygon pl poly 0 1 0 1) polys0 (\<lambda>_. [], h)"

fun clipPolygons :: "bsp \<Rightarrow> ref list \<Rightarrow> heap \<Rightarrow> ref list \<times> heap" where
  "clipPolygons (Node pl fr bk ps) polys0 h =
     (case pl of
        None \<Rightarrow> (polys0, h)
      | Some a \<Rightarrow>
          (let (arrs, h1) = clip_split a polys0 h;
               (front1, h2) = (case fr of None \<Rightarrow> (arrs 0, h1)
                               | Some t \<Rightarrow> clipPolygons t (arrs 0) h1);
               (back1, h3) = (case bk of None \<Rightarrow> (arrs 1, h2)
                              | Some t \<Rightarrow> clipPolygons t (arrs 1) h2)
           in (front1 @ back1, h3)))"

fun clipTo :: "bsp \<Rightarrow> bsp \<Rightarrow> heap \<Rightarrow> bsp \<times> heap" where
  "clipTo (Node pl fr bk ps) bsp h =
     (let (ps', h1) = clipPolygons bsp ps h;
          (fr', h2) = (case fr of None \<Rightarrow> (None, h1)
                       | Some t \<Rightarrow> (let (t', h') = clipTo t bsp h1 in (Some t', h')));
          (bk', h3) = (case bk of None \<Rightarrow> (None, h2)
                       | Some t \<Rightarrow> (let (t', h') = clipTo t bsp h2 in (Some t', h')))
      in (Node pl fr' bk' ps', h3))"

fun allPolygons :: "bsp \<Rightarrow> ref list" where
  "allPolygons (Node pl fr bk ps) =
     ps @ (case fr of None \<Rightarrow> [] | Some t \<Rightarrow> allPolygons t)
        @ (case bk of None \<Rightarrow> [] | Some t \<Rightarrow> allPolygons t)"

text \<open>
  The loop of \<open>build\<close> over its argument: \<open>this.polygons\<close> is array 0, \<open>front\<close>
  array 1 and \<open>back\<close> array 2, passed as
  \<open>(this.polygons, this.polygons, front, back)\<close>.
\<close>

definition build_split :: "ref \<Rightarrow> ref list \<Rightarrow> ref list \<Rightarrow> heap \<Rightarrow> arrays \<times> heap" where
  "build_split pl ps polys0 h =
     fold (\<lambda>poly. splitPolygon pl poly 0 0 1 2) polys0 ((\<lambda>_. [])(0 := ps), h)"

lemma length_emit_ring:
  "length (fst (emit_ring a ring s) k) \<le> length (fst s k) + (if k = a then 1 else 0)"
  by (simp add: emit_ring_def push_def alloc_Polygon_def Let_def)

lemma length_splitPolygon_front:
  "length (fst (splitPolygon pl poly 0 0 (Suc 0) 2 s) (Suc 0)) \<le> Suc (length (fst s (Suc 0)))"
proof -
  have "length (fst (emit_ring 2 b (emit_ring (Suc 0) f s)) (Suc 0))
          \<le> Suc (length (fst s (Suc 0)))" for f b
    using length_emit_ring [of 2 b "emit_ring (Suc 0) f s" "Suc 0"]
          length_emit_ring [of "Suc 0" f s "Suc 0"]
    by simp
  then show ?thesis
    by (simp add: splitPolygon_def Let_def push_def split: prod.splits)
qed

lemma length_splitPolygon_back:
  "length (fst (splitPolygon pl poly 0 0 (Suc 0) 2 s) 2) \<le> Suc (length (fst s 2))"
proof -
  have "length (fst (emit_ring 2 b (emit_ring (Suc 0) f s)) 2) \<le> Suc (length (fst s 2))"
    for f b
    using length_emit_ring [of 2 b "emit_ring (Suc 0) f s" 2]
          length_emit_ring [of "Suc 0" f s 2]
    by simp
  then show ?thesis
    by (simp add: splitPolygon_def Let_def push_def split: prod.splits)
qed

lemma length_fold_split_front:
  "length (fst (fold (\<lambda>poly. splitPolygon pl poly 0 0 (Suc 0) 2) polys0 s) (Suc 0))
     \<le> length (fst s (Suc 0)) + length polys0"
proof (induction polys0 arbitrary: s)
  case Nil
  show ?case by simp
next
  case (Cons p polys0)
  show ?case
    using Cons.IH [of "splitPolygon pl p 0 0 (Suc 0) 2 s"]
          length_splitPolygon_front [of pl p s]
    by simp
qed

lemma length_fold_split_back:
  "length (fst (fold (\<lambda>poly. splitPolygon pl poly 0 0 (Suc 0) 2) polys0 s) 2)
     \<le> length (fst s 2) + length polys0"
proof (induction polys0 arbitrary: s)
  case Nil
  show ?case by simp
next
  case (Cons p polys0)
  show ?case
    using Cons.IH [of "splitPolygon pl p 0 0 (Suc 0) 2 s"]
          length_splitPolygon_back [of pl p s]
    by simp
qed

lemma build_split_front_le:
  "length (fst (build_split pl ps polys0 h) (Suc 0)) \<le> length polys0"
  using length_fold_split_front [of pl polys0 "((\<lambda>_. [])(0 := ps), h)"]
  by (simp add: build_split_def)

lemma build_split_back_le:
  "length (fst (build_split pl ps polys0 h) 2) \<le> length polys0"
  using length_fold_split_back [of pl polys0 "((\<lambda>_. [])(0 := ps), h)"]
  by (simp add: build_split_def)

text \<open>
  \<open>build\<close>. A child is built from a list that is shorter than the argument (the two
  tests \<open>front.length !== polygons.length\<close> and \<open>back.length !== polygons.length\<close>),
  which is what makes the recursion end. It goes one call deeper per level of the
  tree, and nothing in the code bounds that depth; the function below has no limit on
  it.
\<close>

function build :: "bsp \<Rightarrow> ref list \<Rightarrow> heap \<Rightarrow> bsp \<times> heap" where
  "build (Node pl fr bk ps) polys0 h =
     (if polys0 = [] \<or> length ps > 1000 then (Node pl fr bk ps, h)
      else
        (let a = (case pl of None \<Rightarrow> plane (polys h (polys0 ! 0)) | Some a \<Rightarrow> a);
             (arrs, h1) = build_split a ps polys0 h;
             (fr', h2) =
               (if arrs 1 \<noteq> []
                then (let t = (case fr of None \<Rightarrow> empty_node | Some t \<Rightarrow> t)
                      in if length (arrs 1) \<noteq> length polys0
                         then (let (t', h') = build t (arrs 1) h1 in (Some t', h'))
                         else (Some t, h1))
                else (fr, h1));
             (bk', h3) =
               (if arrs 2 \<noteq> []
                then (let t = (case bk of None \<Rightarrow> empty_node | Some t \<Rightarrow> t)
                      in if length (arrs 2) \<noteq> length polys0
                         then (let (t', h') = build t (arrs 2) h2 in (Some t', h'))
                         else (Some t, h2))
                else (bk, h2))
         in (Node (Some a) fr' bk' (arrs 0), h3)))"
  by pat_completeness auto
termination
proof (relation "measure (\<lambda>(t, polys0, h). length polys0)")
  show "wf (measure (\<lambda>(t, polys0, h). length polys0))" by simp
next
  fix pl fr bk ps polys0 h a x arrs h1 t
  assume "(arrs, h1) = x" "x = build_split a ps polys0 h"
    and "length (arrs 1) \<noteq> length polys0"
  then show "((t, arrs 1, h1), Node pl fr bk ps, polys0, h)
               \<in> measure (\<lambda>(t, polys0, h). length polys0)"
    using build_split_front_le [of a ps polys0 h] by (auto simp: fst_def split: prod.splits)
next
  fix pl fr bk ps polys0 h a x arrs h1 t h2
  assume "(arrs, h1) = x" "x = build_split a ps polys0 h"
    and "length (arrs 2) \<noteq> length polys0"
  then show "((t, arrs 2, h2), Node pl fr bk ps, polys0, h)
               \<in> measure (\<lambda>(t, polys0, h). length polys0)"
    using build_split_back_le [of a ps polys0 h] by (auto simp: fst_def split: prod.splits)
qed

text \<open>\<open>new BSPNode(polygons)\<close>\<close>

definition BSPNode :: "ref list \<Rightarrow> heap \<Rightarrow> bsp \<times> heap" where
  "BSPNode polys0 h = build empty_node polys0 h"

subsection \<open>CSG\<close>

record csg =
  polygons :: "ref list"

definition fromPolygons :: "ref list \<Rightarrow> csg" where
  "fromPolygons ps = \<lparr>polygons = ps\<rparr>"

text \<open>\<open>this.polygons.map(p => p.clone())\<close>, which stops at the first throw.\<close>

fun clone_all :: "ref list \<Rightarrow> heap \<Rightarrow> error + ref list \<times> heap" where
  "clone_all [] h = Inr ([], h)"
| "clone_all (p # ps) h =
     (case Polygon_clone p h of
        Inl e \<Rightarrow> Inl e
      | Inr (r, h1) \<Rightarrow>
          (case clone_all ps h1 of
             Inl e \<Rightarrow> Inl e
           | Inr (rs, h2) \<Rightarrow> Inr (r # rs, h2)))"

definition CSG_clone :: "csg \<Rightarrow> heap \<Rightarrow> error + csg \<times> heap" where
  "CSG_clone c h =
     (case clone_all (polygons c) h of
        Inl e \<Rightarrow> Inl e
      | Inr (rs, h1) \<Rightarrow> Inr (\<lparr>polygons = rs\<rparr>, h1))"

text \<open>
  The first two lines of \<open>union\<close>, \<open>subtract\<close> and \<open>intersect\<close>:
  \<open>a = new BSPNode(this.clone().polygons)\<close> and
  \<open>b = new BSPNode(csg.clone().polygons)\<close>.
\<close>

definition two_trees :: "csg \<Rightarrow> csg \<Rightarrow> heap \<Rightarrow> error + (bsp \<times> bsp) \<times> heap" where
  "two_trees this other h =
     (case CSG_clone this h of
        Inl e \<Rightarrow> Inl e
      | Inr (c1, h1) \<Rightarrow>
          (let (a, h2) = BSPNode (polygons c1) h1
           in case CSG_clone other h2 of
                Inl e \<Rightarrow> Inl e
              | Inr (c2, h3) \<Rightarrow>
                  (let (b, h4) = BSPNode (polygons c2) h3 in Inr ((a, b), h4))))"

definition CSG_union :: "csg \<Rightarrow> csg \<Rightarrow> heap \<Rightarrow> error + csg \<times> heap" where
  "CSG_union this other h =
     (case two_trees this other h of
        Inl e \<Rightarrow> Inl e
      | Inr ((a0, b0), h0) \<Rightarrow>
          (let (a1, h1) = clipTo a0 b0 h0;
               (b1, h2) = clipTo b0 a1 h1;
               (b2, h3) = invert b1 h2;
               (b3, h4) = clipTo b2 a1 h3;
               (b4, h5) = invert b3 h4;
               (a2, h6) = build a1 (allPolygons b4) h5
           in Inr (fromPolygons (allPolygons a2), h6)))"

definition CSG_subtract :: "csg \<Rightarrow> csg \<Rightarrow> heap \<Rightarrow> error + csg \<times> heap" where
  "CSG_subtract this other h =
     (case two_trees this other h of
        Inl e \<Rightarrow> Inl e
      | Inr ((a0, b0), h0) \<Rightarrow>
          (let (a1, h1) = invert a0 h0;
               (a2, h2) = clipTo a1 b0 h1;
               (b1, h3) = clipTo b0 a2 h2;
               (b2, h4) = invert b1 h3;
               (b3, h5) = clipTo b2 a2 h4;
               (b4, h6) = invert b3 h5;
               (a3, h7) = build a2 (allPolygons b4) h6;
               (a4, h8) = invert a3 h7
           in Inr (fromPolygons (allPolygons a4), h8)))"

definition CSG_intersect :: "csg \<Rightarrow> csg \<Rightarrow> heap \<Rightarrow> error + csg \<times> heap" where
  "CSG_intersect this other h =
     (case two_trees this other h of
        Inl e \<Rightarrow> Inl e
      | Inr ((a0, b0), h0) \<Rightarrow>
          (let (a1, h1) = invert a0 h0;
               (b1, h2) = clipTo b0 a1 h1;
               (b2, h3) = invert b1 h2;
               (a2, h4) = clipTo a1 b2 h3;
               (b3, h5) = clipTo b2 a2 h4;
               (a3, h6) = build a2 (allPolygons b3) h5;
               (a4, h7) = invert a3 h6
           in Inr (fromPolygons (allPolygons a4), h7)))"

definition CSG_inverse :: "csg \<Rightarrow> heap \<Rightarrow> error + csg \<times> heap" where
  "CSG_inverse this h =
     (case CSG_clone this h of
        Inl e \<Rightarrow> Inl e
      | Inr (c, h1) \<Rightarrow> Inr (c, flip_all (polygons c) h1))"

subsection \<open>fromGeometry\<close>

text \<open>
  A face has the index list \<open>vertices\<close> and, optionally, the index list \<open>uvs\<close>.
  Indices are natural numbers. Reading an array beyond its end gives \<open>undefined\<close>,
  which is \<open>None\<close> of \<open>lookup\<close>.
\<close>

record face =
  face_vertices :: "nat list"
  face_uvs :: "nat list option"

definition lookup :: "'a list \<Rightarrow> nat \<Rightarrow> 'a option" where
  "lookup xs i = (if i < length xs then Some (xs ! i) else None)"

text \<open>
  The body of the inner loop, for \<open>i < face.vertices.length\<close>. \<open>uvs[face.uvs[i]]\<close>
  throws when \<open>uvs\<close> is given and the face has no \<open>uvs\<close>; \<open>new Vertex\<close> throws when
  \<open>vertex\<close> is \<open>undefined\<close> (\<open>position.clone()\<close>); a normal or a uv that is
  \<open>undefined\<close> takes the constructor's default.
\<close>

definition face_vertex ::
  "vec3 list \<Rightarrow> vec3 list option \<Rightarrow> (real \<times> real) list option \<Rightarrow> face \<Rightarrow> nat \<Rightarrow>
   error + vertex" where
  "face_vertex vertices0 normals uvs fc i =
     (let vertexIndex = face_vertices fc ! i;
          vertex = lookup vertices0 vertexIndex;
          nrm = (case normals of None \<Rightarrow> None | Some ns \<Rightarrow> lookup ns vertexIndex)
      in case (case uvs of
                 None \<Rightarrow> Inr None
               | Some us \<Rightarrow>
                   (case face_uvs fc of
                      None \<Rightarrow> Inl TypeError
                    | Some fu \<Rightarrow>
                        Inr (case lookup fu i of None \<Rightarrow> None | Some k \<Rightarrow> lookup us k))) of
           Inl e \<Rightarrow> Inl e
         | Inr c \<Rightarrow>
             (case vertex of
                None \<Rightarrow> Inl TypeError
              | Some p \<Rightarrow> Inr (Vertex p nrm c)))"

text \<open>The inner loop: it pushes onto \<open>faceVertices\<close>, here \<open>acc\<close>.\<close>

fun face_loop ::
  "vec3 list \<Rightarrow> vec3 list option \<Rightarrow> (real \<times> real) list option \<Rightarrow> face \<Rightarrow> nat list \<Rightarrow>
   vertex list \<Rightarrow> error + vertex list" where
  "face_loop vertices0 normals uvs fc [] acc = Inr acc"
| "face_loop vertices0 normals uvs fc (i # is) acc =
     (case face_vertex vertices0 normals uvs fc i of
        Inl e \<Rightarrow> Inl e
      | Inr v \<Rightarrow> face_loop vertices0 normals uvs fc is (acc @ [v]))"

text \<open>
  \<open>faceVertices\<close> is declared before the loop over the faces, and every polygon is
  constructed on this one array: each polygon object of \<open>created\<close> holds a reference
  to it. \<open>share_array\<close> writes the array's current contents into these polygon objects,
  which is what a later read of \<open>polygon.vertices\<close> sees.
\<close>

definition share_array :: "ref list \<Rightarrow> vertex list \<Rightarrow> heap \<Rightarrow> heap" where
  "share_array created arr h =
     h\<lparr>polys := (\<lambda>r. if r \<in> set created then (polys h r)\<lparr>vertices := arr\<rparr> else polys h r)\<rparr>"

fun faces_loop ::
  "vec3 list \<Rightarrow> vec3 list option \<Rightarrow> (real \<times> real) list option \<Rightarrow> face list \<Rightarrow>
   vertex list \<Rightarrow> ref list \<Rightarrow> heap \<Rightarrow> error + ref list \<times> heap" where
  "faces_loop vertices0 normals uvs [] faceVertices created h = Inr (created, h)"
| "faces_loop vertices0 normals uvs (fc # fcs) faceVertices created h =
     (case face_loop vertices0 normals uvs fc [0..<length (face_vertices fc)] faceVertices of
        Inl e \<Rightarrow> Inl e
      | Inr faceVertices1 \<Rightarrow>
          (case new_Polygon faceVertices1 (share_array created faceVertices1 h) of
             Inl e \<Rightarrow> Inl e
           | Inr (r, h1) \<Rightarrow>
               faces_loop vertices0 normals uvs fcs faceVertices1 (created @ [r]) h1))"

definition fromGeometry ::
  "vec3 list \<Rightarrow> face list \<Rightarrow> vec3 list option \<Rightarrow> (real \<times> real) list option \<Rightarrow> heap \<Rightarrow>
   error + csg \<times> heap" where
  "fromGeometry vertices0 faces normals uvs h =
     (case faces_loop vertices0 normals uvs faces [] [] h of
        Inl e \<Rightarrow> Inl e
      | Inr (created, h1) \<Rightarrow> Inr (\<lparr>polygons = created\<rparr>, h1))"

section \<open>Properties\<close>

subsection \<open>Vertex classification and the aggregate type\<close>

lemma EPSILON_pos: "0 < EPSILON"
  by (simp add: EPSILON_def)

lemma classify_cases:
  "(classify n w v = BACK \<longleftrightarrow> dot n (position v) - w < - EPSILON) \<and>
   (classify n w v = FRONT \<longleftrightarrow> dot n (position v) - w > EPSILON) \<and>
   (classify n w v = COPLANAR \<longleftrightarrow>
      - EPSILON \<le> dot n (position v) - w \<and> dot n (position v) - w \<le> EPSILON)"
  using EPSILON_pos
  by (auto simp: classify_def Let_def BACK_def FRONT_def COPLANAR_def)

lemma classify_range: "classify n w v \<in> {COPLANAR, FRONT, BACK}"
  by (simp add: classify_def Let_def)

lemma dot_sub: "dot n (sub a b) = dot n a - dot n b"
  by (simp add: dot_def sub_def algebra_simps)

lemma crossing_divisor:
  assumes "(classify n w vi = FRONT \<and> classify n w vj = BACK) \<or>
           (classify n w vi = BACK \<and> classify n w vj = FRONT)"
  shows "2 * EPSILON < \<bar>dot n (sub (position vj) (position vi))\<bar>"
  using assms classify_cases [of n w vi] classify_cases [of n w vj]
  by (auto simp: dot_sub)

lemma fold_or_acc:
  "fold (\<lambda>t ty. ty OR t) ts (a::nat) = a OR fold (\<lambda>t ty. ty OR t) ts 0"
proof (induction ts arbitrary: a)
  case Nil
  show ?case by simp
next
  case (Cons t ts)
  show ?case
    using Cons.IH [of "a OR t"] Cons.IH [of t]
    by (simp add: or.assoc)
qed

lemma polygonType_Cons: "polygonType (t # ts) = t OR polygonType ts"
  using fold_or_acc [of ts t] by (simp add: polygonType_def)

lemma polygonType_Nil: "polygonType [] = 0"
  by (simp add: polygonType_def)

lemma or_small:
  "(0::nat) OR 1 = 1" "(0::nat) OR 2 = 2" "(1::nat) OR 2 = 3" "(2::nat) OR 1 = 3"
  "(1::nat) OR 3 = 3" "(2::nat) OR 3 = 3" "(2::nat) OR 2 = 2" "(1::nat) OR 1 = 1"
  "(0::nat) OR 3 = 3" "(3::nat) OR 3 = 3" "(3::nat) OR 1 = 3" "(3::nat) OR 2 = 3"
  by simp_all


lemma type_or:
  "COPLANAR OR t = t" "t OR COPLANAR = t"
  "FRONT OR FRONT = FRONT" "BACK OR BACK = BACK"
  "FRONT OR BACK = SPANNING" "BACK OR FRONT = SPANNING"
  "FRONT OR SPANNING = SPANNING" "BACK OR SPANNING = SPANNING"
  "SPANNING OR FRONT = SPANNING" "SPANNING OR BACK = SPANNING"
  by (simp_all add: COPLANAR_def FRONT_def BACK_def SPANNING_def)

lemma type_distinct:
  "COPLANAR \<noteq> FRONT" "COPLANAR \<noteq> BACK" "COPLANAR \<noteq> SPANNING"
  "FRONT \<noteq> BACK" "FRONT \<noteq> SPANNING" "BACK \<noteq> SPANNING"
  "FRONT \<noteq> COPLANAR" "BACK \<noteq> COPLANAR" "SPANNING \<noteq> COPLANAR"
  "BACK \<noteq> FRONT" "SPANNING \<noteq> FRONT" "SPANNING \<noteq> BACK"
  by (simp_all add: COPLANAR_def FRONT_def BACK_def SPANNING_def)

lemma polygonType_char:
  assumes "\<forall>t \<in> set ts. t = COPLANAR \<or> t = FRONT \<or> t = BACK"
  shows "polygonType ts =
           (if FRONT \<in> set ts then (if BACK \<in> set ts then SPANNING else FRONT)
            else (if BACK \<in> set ts then BACK else COPLANAR))"
  using assms
proof (induction ts)
  case Nil
  show ?case by (simp add: polygonType_Nil COPLANAR_def)
next
  case (Cons t ts)
  then have IH: "polygonType ts =
      (if FRONT \<in> set ts then (if BACK \<in> set ts then SPANNING else FRONT)
            else (if BACK \<in> set ts then BACK else COPLANAR))"
    and t: "t = COPLANAR \<or> t = FRONT \<or> t = BACK"
    by auto
  from t show ?case
    unfolding polygonType_Cons IH
    by (elim disjE) (simp_all add: type_or type_distinct)
qed

lemma split_step_append:
  "split_step n w vs types i fb =
     (fst fb @ fst (split_step n w vs types i ([], [])),
      snd fb @ snd (split_step n w vs types i ([], [])))"
  apply (cases fb)
  apply (simp add: split_step_def Let_def)
  done

lemma fold_split_step:
  "fold (split_step n w vs types) is fb =
     (fst fb @ concat (map (\<lambda>i. fst (split_step n w vs types i ([], []))) is),
      snd fb @ concat (map (\<lambda>i. snd (split_step n w vs types i ([], []))) is))"
proof (induction "is" arbitrary: fb)
  case Nil
  show ?case by simp
next
  case (Cons i "is")
  have "fst (split_step n w vs types i fb) = fst fb @ fst (split_step n w vs types i ([], []))"
    and "snd (split_step n w vs types i fb) = snd fb @ snd (split_step n w vs types i ([], []))"
    using split_step_append [of n w vs types i fb] by (metis fst_conv, metis snd_conv)
  then show ?case
    by (simp add: Cons.IH)
qed

subsection \<open>The rings of a spanning polygon, as the specification words them\<close>

text \<open>
  An edge \<open>(vi, vj)\<close> crosses the plane when its endpoints lie on opposite sides. The
  front ring takes, edge by edge, \<open>vi\<close> unless it is at the back, then the crossing
  vertex of a crossing edge; the back ring likewise with \<open>vi\<close> unless it is in front.
\<close>

definition crossing :: "nat \<Rightarrow> nat \<Rightarrow> bool" where
  "crossing ti tj \<longleftrightarrow> (ti = FRONT \<and> tj = BACK) \<or> (ti = BACK \<and> tj = FRONT)"

text \<open>
  Linear interpolation from \<open>a\<close> to \<open>b\<close> at the parameter \<open>t\<close>, on numbers and
  coordinate by coordinate on vectors. The vertex synthesized on a crossing edge
  \<open>(vi, vj)\<close> interpolates position, normal and uv at
  \<open>t = (w - normal \<sqdot> vi) / (normal \<sqdot> (vj - vi))\<close>.
\<close>

definition lerp :: "real \<Rightarrow> real \<Rightarrow> real \<Rightarrow> real" where
  "lerp a b t = a + t * (b - a)"

definition lerp3 :: "vec3 \<Rightarrow> vec3 \<Rightarrow> real \<Rightarrow> vec3" where
  "lerp3 a b t = Vec3 (lerp (vx a) (vx b) t) (lerp (vy a) (vy b) t) (lerp (vz a) (vz b) t)"

definition crossing_parameter :: "vec3 \<Rightarrow> real \<Rightarrow> vertex \<Rightarrow> vertex \<Rightarrow> real" where
  "crossing_parameter n w vi vj =
     (w - dot n (position vi)) / dot n (sub (position vj) (position vi))"

definition crossing_vertex :: "vec3 \<Rightarrow> real \<Rightarrow> vertex \<Rightarrow> vertex \<Rightarrow> vertex" where
  "crossing_vertex n w vi vj =
     (let t = crossing_parameter n w vi vj
      in \<lparr>position = lerp3 (position vi) (position vj) t,
          normal = lerp3 (normal vi) (normal vj) t,
          uv = (lerp (fst (uv vi)) (fst (uv vj)) t, lerp (snd (uv vi)) (snd (uv vj)) t)\<rparr>)"

definition edge_front :: "vec3 \<Rightarrow> real \<Rightarrow> vertex \<Rightarrow> vertex \<Rightarrow> vertex list" where
  "edge_front n w vi vj =
     (if classify n w vi \<noteq> BACK then [vi] else []) @
     (if crossing (classify n w vi) (classify n w vj) then [crossing_vertex n w vi vj] else [])"

definition edge_back :: "vec3 \<Rightarrow> real \<Rightarrow> vertex \<Rightarrow> vertex \<Rightarrow> vertex list" where
  "edge_back n w vi vj =
     (if classify n w vi \<noteq> FRONT then [vi] else []) @
     (if crossing (classify n w vi) (classify n w vj) then [crossing_vertex n w vi vj] else [])"

definition front_ring :: "vec3 \<Rightarrow> real \<Rightarrow> vertex list \<Rightarrow> vertex list" where
  "front_ring n w vs =
     concat (map (\<lambda>i. edge_front n w (vs ! i) (vs ! ((i + 1) mod length vs))) [0..<length vs])"

definition back_ring :: "vec3 \<Rightarrow> real \<Rightarrow> vertex list \<Rightarrow> vertex list" where
  "back_ring n w vs =
     concat (map (\<lambda>i. edge_back n w (vs ! i) (vs ! ((i + 1) mod length vs))) [0..<length vs])"

lemma Vertex_clone_id: "Vertex_clone v = v"
  by (simp add: Vertex_clone_def Vertex_def)

lemma or_spanning_iff:
  assumes "ti = COPLANAR \<or> ti = FRONT \<or> ti = BACK" "tj = COPLANAR \<or> tj = FRONT \<or> tj = BACK"
  shows "ti OR tj = SPANNING \<longleftrightarrow> crossing ti tj"
  using assms unfolding crossing_def
  by (elim disjE) (simp_all add: type_or type_distinct)

lemma classify_shape: "classify n w v = COPLANAR \<or> classify n w v = FRONT \<or> classify n w v = BACK"
  by (simp add: classify_def Let_def)

lemma interpolateVertex_lerp:
  "interpolateVertex v1 v2 t =
     \<lparr>position = lerp3 (position v1) (position v2) t,
      normal = lerp3 (normal v1) (normal v2) t,
      uv = (lerp (fst (uv v1)) (fst (uv v2)) t, lerp (snd (uv v1)) (snd (uv v2)) t)\<rparr>"
  by (simp add: interpolateVertex_def Vertex_def lerp3_def lerp_def add_def mul_def Let_def
      algebra_simps)

lemma interpolateVertex_crossing:
  "interpolateVertex vi vj
     ((w - dot n (position vi)) / dot n (sub (position vj) (position vi)))
   = crossing_vertex n w vi vj"
  by (simp add: interpolateVertex_lerp crossing_vertex_def crossing_parameter_def Let_def)

lemma split_step_edges:
  assumes "i < length vs"
  shows "split_step n w vs (map (classify n w) vs) i ([], []) =
           (edge_front n w (vs ! i) (vs ! ((i + 1) mod length vs)),
            edge_back n w (vs ! i) (vs ! ((i + 1) mod length vs)))"
proof -
  have j: "(i + 1) mod length vs < length vs"
    using assms by (intro mod_less_divisor) auto
  have c: "(classify n w (vs ! i) OR classify n w (vs ! ((i + 1) mod length vs)) = SPANNING)
             = crossing (classify n w (vs ! i)) (classify n w (vs ! ((i + 1) mod length vs)))"
    by (rule or_spanning_iff) (rule classify_shape)+
  show ?thesis
    using assms j c
    by (simp add: split_step_def Let_def edge_front_def edge_back_def
        interpolateVertex_crossing Vertex_clone_id)
qed

lemma split_rings_eq:
  "split_rings n w vs (map (classify n w) vs) = (front_ring n w vs, back_ring n w vs)"
proof -
  have f: "map (\<lambda>i. fst (split_step n w vs (map (classify n w) vs) i ([], []))) [0..<length vs]
          = map (\<lambda>i. edge_front n w (vs ! i) (vs ! ((i + 1) mod length vs))) [0..<length vs]"
    by (rule map_cong) (simp_all add: split_step_edges)
  have b: "map (\<lambda>i. snd (split_step n w vs (map (classify n w) vs) i ([], []))) [0..<length vs]
          = map (\<lambda>i. edge_back n w (vs ! i) (vs ! ((i + 1) mod length vs))) [0..<length vs]"
    by (rule map_cong) (simp_all add: split_step_edges)
  show ?thesis
    unfolding split_rings_def fold_split_step front_ring_def back_ring_def f b
    by simp
qed

definition heap_extends :: "heap \<Rightarrow> heap \<Rightarrow> bool" where
  "heap_extends h h' \<longleftrightarrow>
     next_ref h \<le> next_ref h' \<and>
     (\<forall>r < next_ref h. polys h' r = polys h r \<and> planes h' r = planes h r)"

lemma heap_extends_refl: "heap_extends h h"
  by (simp add: heap_extends_def)

lemma heap_extends_trans: "heap_extends h1 h2 \<Longrightarrow> heap_extends h2 h3 \<Longrightarrow> heap_extends h1 h3"
  by (auto simp: heap_extends_def)

lemma heap_extends_alloc: "heap_extends h (snd (alloc_Polygon vs h))"
  by (simp add: heap_extends_def alloc_Polygon_def Let_def)

lemma heap_extends_emit_ring: "heap_extends (snd s) (snd (emit_ring a ring s))"
  using heap_extends_alloc [of "snd s" ring]
  by (cases "alloc_Polygon ring (snd s)") (auto simp: emit_ring_def heap_extends_refl)

lemma heap_extends_splitPolygon: "heap_extends (snd s) (snd (splitPolygon pl poly cf cb fr bk s))"
proof -
  have "heap_extends (snd s) (snd (emit_ring bk b (emit_ring fr f s)))" for f b
    using heap_extends_emit_ring [of s fr f] heap_extends_emit_ring [of "emit_ring fr f s" bk b]
    by (rule heap_extends_trans)
  then show ?thesis
    by (simp add: splitPolygon_def Let_def heap_extends_refl split: prod.splits)
qed


definition heap0 :: heap where
  "heap0 = \<lparr>polys = (\<lambda>_. \<lparr>vertices = [], plane = 0\<rparr>),
            planes = (\<lambda>_. \<lparr>pnormal = Vec3 0 0 0, pw = 0\<rparr>),
            next_ref = 0\<rparr>"

definition vtx :: "real \<Rightarrow> real \<Rightarrow> real \<Rightarrow> vertex" where
  "vtx a b c = Vertex (Vec3 a b c) None None"

lemma emit_ring_eq:
  "emit_ring a ring t =
     (if 3 \<le> length ring
      then (push a (next_ref (snd t)) (fst t), snd (alloc_Polygon ring (snd t)))
      else t)"
  by (simp add: emit_ring_def alloc_Polygon_def Let_def)

text \<open>
  Claim C1. \<open>splitPolygon\<close> types each vertex by the sign of
  \<open>normal \<sqdot> position - w\<close> against \<open>EPSILON\<close>, the double that \<open>1e-5\<close> denotes (below
  \<open>-EPSILON\<close> BACK, above \<open>EPSILON\<close> FRONT, else COPLANAR), and ORs the types. A polygon of type COPLANAR is
  pushed whole onto \<open>coplanarFront\<close> exactly when the dot product of the reference
  normal and its own plane normal is positive, otherwise onto \<open>coplanarBack\<close>; one of
  type FRONT (BACK) is pushed whole onto \<open>front\<close> (\<open>back\<close>). A SPANNING polygon gives
  the front ring and the back ring, built edge by edge: \<open>front_ring\<close> and \<open>back_ring\<close>
  take each vertex that is not on the other side and, on an edge \<open>(vi, vj)\<close> with one
  end in front and one at the back, the vertex \<open>crossing_vertex\<close>, whose position,
  normal and uv are those of \<open>vi\<close> and \<open>vj\<close> interpolated linearly at
  \<open>t = (w - normal \<sqdot> vi) / (normal \<sqdot> (vj - vi))\<close>. Each ring becomes a new polygon
  only when it has at least 3 vertices. Every object allocated before the call, the
  input polygon among them, is unchanged.
\<close>

theorem splitPolygon_contract:
  fixes s :: "arrays \<times> heap" and pl polygon :: ref
    and cf cb fr bk :: nat
  defines "h \<equiv> snd s"
  defines "n \<equiv> pnormal (planes h pl)" and "w \<equiv> pw (planes h pl)"
    and "vs \<equiv> vertices (polys h polygon)"
  defines "types \<equiv> map (classify n w) vs"
  defines "res \<equiv> splitPolygon pl polygon cf cb fr bk s"
  shows
    "EPSILON = 5902958103587057 / 2 ^ 69 \<and>
     (\<forall>v. (classify n w v = BACK \<longleftrightarrow> dot n (position v) - w < - EPSILON) \<and>
          (classify n w v = FRONT \<longleftrightarrow> dot n (position v) - w > EPSILON) \<and>
          (classify n w v = COPLANAR \<longleftrightarrow>
             - EPSILON \<le> dot n (position v) - w \<and> dot n (position v) - w \<le> EPSILON)) \<and>
     polygonType types =
       (if FRONT \<in> set types then (if BACK \<in> set types then SPANNING else FRONT)
        else (if BACK \<in> set types then BACK else COPLANAR)) \<and>
     (polygonType types = COPLANAR \<longrightarrow>
        res = (push (if dot n (pnormal (planes h (plane (polys h polygon)))) > 0
                     then cf else cb) polygon (fst s), h)) \<and>
     (polygonType types = FRONT \<longrightarrow> res = (push fr polygon (fst s), h)) \<and>
     (polygonType types = BACK \<longrightarrow> res = (push bk polygon (fst s), h)) \<and>
     (polygonType types = SPANNING \<longrightarrow>
        res = emit_ring bk (back_ring n w vs) (emit_ring fr (front_ring n w vs) s)) \<and>
     (\<forall>a ring t. emit_ring a ring t =
        (if 3 \<le> length ring
         then (push a (next_ref (snd t)) (fst t),
               \<lparr>polys = (polys (snd t))(next_ref (snd t) :=
                           \<lparr>vertices = ring, plane = next_ref (snd t)\<rparr>),
                planes = (planes (snd t))(next_ref (snd t) := calculatePlane ring),
                next_ref = Suc (next_ref (snd t))\<rparr>)
         else t)) \<and>
     heap_extends h (snd res)"
proof -
  have shape: "\<forall>t \<in> set types. t = COPLANAR \<or> t = FRONT \<or> t = BACK"
    using classify_shape by (auto simp: types_def)
  have ty: "polygonType types =
       (if FRONT \<in> set types then (if BACK \<in> set types then SPANNING else FRONT)
        else (if BACK \<in> set types then BACK else COPLANAR))"
    using shape by (rule polygonType_char)
  have rings: "split_rings n w vs types = (front_ring n w vs, back_ring n w vs)"
    unfolding types_def by (rule split_rings_eq)
  have unfold: "res =
     (if polygonType types = COPLANAR
         then (push (if dot n (pnormal (planes h (plane (polys h polygon)))) > 0
                     then cf else cb) polygon (fst s), h)
         else if polygonType types = FRONT then (push fr polygon (fst s), h)
         else if polygonType types = BACK then (push bk polygon (fst s), h)
         else if polygonType types = SPANNING
         then emit_ring bk (back_ring n w vs) (emit_ring fr (front_ring n w vs) s)
         else s)"
    using rings
    by (simp add: res_def splitPolygon_def Let_def h_def n_def w_def vs_def types_def)
  have frame: "heap_extends h (snd res)"
    unfolding h_def res_def by (rule heap_extends_splitPolygon)
  have emit: "\<forall>a ring t. emit_ring a ring t =
        (if 3 \<le> length ring
         then (push a (next_ref (snd t)) (fst t),
               \<lparr>polys = (polys (snd t))(next_ref (snd t) :=
                           \<lparr>vertices = ring, plane = next_ref (snd t)\<rparr>),
                planes = (planes (snd t))(next_ref (snd t) := calculatePlane ring),
                next_ref = Suc (next_ref (snd t))\<rparr>)
         else t)"
    by (simp add: emit_ring_def alloc_Polygon_def Let_def)
  have eps: "EPSILON = 5902958103587057 / 2 ^ 69"
    by (simp add: EPSILON_def)
  have rest:
    "(\<forall>v. (classify n w v = BACK \<longleftrightarrow> dot n (position v) - w < - EPSILON) \<and>
          (classify n w v = FRONT \<longleftrightarrow> dot n (position v) - w > EPSILON) \<and>
          (classify n w v = COPLANAR \<longleftrightarrow>
             - EPSILON \<le> dot n (position v) - w \<and> dot n (position v) - w \<le> EPSILON)) \<and>
     polygonType types =
       (if FRONT \<in> set types then (if BACK \<in> set types then SPANNING else FRONT)
        else (if BACK \<in> set types then BACK else COPLANAR)) \<and>
     (polygonType types = COPLANAR \<longrightarrow>
        res = (push (if dot n (pnormal (planes h (plane (polys h polygon)))) > 0
                     then cf else cb) polygon (fst s), h)) \<and>
     (polygonType types = FRONT \<longrightarrow> res = (push fr polygon (fst s), h)) \<and>
     (polygonType types = BACK \<longrightarrow> res = (push bk polygon (fst s), h)) \<and>
     (polygonType types = SPANNING \<longrightarrow>
        res = emit_ring bk (back_ring n w vs) (emit_ring fr (front_ring n w vs) s)) \<and>
     (\<forall>a ring t. emit_ring a ring t =
        (if 3 \<le> length ring
         then (push a (next_ref (snd t)) (fst t),
               \<lparr>polys = (polys (snd t))(next_ref (snd t) :=
                           \<lparr>vertices = ring, plane = next_ref (snd t)\<rparr>),
                planes = (planes (snd t))(next_ref (snd t) := calculatePlane ring),
                next_ref = Suc (next_ref (snd t))\<rparr>)
         else t)) \<and>
     heap_extends h (snd res)"
    using classify_cases [of n w] ty frame emit
    by (simp add: unfold type_distinct)
  from eps rest show ?thesis
    by (rule conjI)
qed


definition triA :: "vertex list" where
  "triA = [vtx 0 0 0, vtx 1 0 0, vtx 0 1 0]"

definition triB :: "vertex list" where
  "triB = [vtx 0 0 1, vtx 0 1 (- 1), vtx 0 2 (- 2)]"

definition triC :: "vertex list" where
  "triC = [vtx 0 0 (- 1), vtx 1 0 (- 1), vtx 0 1 (- 1)]"

definition heapABC :: heap where
  "heapABC = snd (alloc_Polygon triC (snd (alloc_Polygon triB (snd (alloc_Polygon triA heap0)))))"

lemma calculatePlane_triA: "calculatePlane triA = \<lparr>pnormal = Vec3 0 0 1, pw = 0\<rparr>"
  by (simp add: calculatePlane_def triA_def vtx_def Vertex_def sub_def cross_def normalize_def
      vlength_def dot_def Let_def)

lemma calculatePlane_triB: "calculatePlane triB = \<lparr>pnormal = Vec3 1 0 0, pw = 0\<rparr>"
  by (simp add: calculatePlane_def triB_def vtx_def Vertex_def sub_def cross_def normalize_def
      vlength_def dot_def Let_def)

lemma calculatePlane_triC: "calculatePlane triC = \<lparr>pnormal = Vec3 0 0 1, pw = - 1\<rparr>"
  by (simp add: calculatePlane_def triC_def vtx_def Vertex_def sub_def cross_def normalize_def
      vlength_def dot_def Let_def)

lemma heapABC_eq:
  "heapABC =
     \<lparr>polys = (\<lambda>_. \<lparr>vertices = [], plane = 0\<rparr>)
        (0 := \<lparr>vertices = triA, plane = 0\<rparr>,
         1 := \<lparr>vertices = triB, plane = 1\<rparr>,
         2 := \<lparr>vertices = triC, plane = 2\<rparr>),
      planes = (\<lambda>_. \<lparr>pnormal = Vec3 0 0 0, pw = 0\<rparr>)
        (0 := \<lparr>pnormal = Vec3 0 0 1, pw = 0\<rparr>,
         1 := \<lparr>pnormal = Vec3 1 0 0, pw = 0\<rparr>,
         2 := \<lparr>pnormal = Vec3 0 0 1, pw = - 1\<rparr>),
      next_ref = 3\<rparr>"
  by (simp add: heapABC_def heap0_def alloc_Polygon_def Let_def calculatePlane_triA
      calculatePlane_triB calculatePlane_triC eval_nat_numeral)

lemma classify_vtx:
  "classify (Vec3 a b c) w (vtx x y z) =
     (if a * x + b * y + c * z - w < - (5902958103587057 / 590295810358705651712) then BACK
      else if a * x + b * y + c * z - w > 5902958103587057 / 590295810358705651712 then FRONT else COPLANAR)"
  by (simp add: classify_def vtx_def Vertex_def dot_def EPSILON_def Let_def)

text \<open>
  A triangle with three different normals and uvs, which the plane \<open>z = -1\<close> of the
  third triangle of \<open>heapABC\<close> cuts at \<open>t = 1/2\<close> on its first edge and at \<open>t = 2/3\<close>
  on its last.
\<close>

definition vP0 :: vertex where
  "vP0 = \<lparr>position = Vec3 1 2 1, normal = Vec3 1 0 0, uv = (1, 0)\<rparr>"

definition vP1 :: vertex where
  "vP1 = \<lparr>position = Vec3 3 4 (- 3), normal = Vec3 0 1 0, uv = (0, 1)\<rparr>"

definition vP2 :: vertex where
  "vP2 = \<lparr>position = Vec3 5 (- 2) (- 5), normal = Vec3 0 0 1, uv = (1, 1)\<rparr>"

definition ringP :: "vertex list" where
  "ringP = [vP0, vP1, vP2]"

definition cutP1 :: vertex where
  "cutP1 = \<lparr>position = Vec3 2 3 (- 1), normal = Vec3 (1 / 2) (1 / 2) 0, uv = (1 / 2, 1 / 2)\<rparr>"

definition cutP2 :: vertex where
  "cutP2 = \<lparr>position = Vec3 (7 / 3) (2 / 3) (- 1), normal = Vec3 (2 / 3) 0 (1 / 3),
            uv = (1, 1 / 3)\<rparr>"

definition heapP :: heap where
  "heapP = snd (alloc_Polygon ringP heapABC)"

lemma heapP_obs:
  "planes heapP 2 = \<lparr>pnormal = Vec3 0 0 1, pw = - 1\<rparr>"
  "polys heapP 3 = \<lparr>vertices = ringP, plane = 3\<rparr>"
  "next_ref heapP = 4"
  by (simp_all add: heapP_def alloc_Polygon_def Let_def heapABC_eq)

lemma types_ringP: "map (classify (Vec3 0 0 1) (- 1)) ringP = [FRONT, BACK, BACK]"
  by (simp add: ringP_def vP0_def vP1_def vP2_def classify_def dot_def EPSILON_def Let_def)

lemma front_ring_ringP: "front_ring (Vec3 0 0 1) (- 1) ringP = [vP0, cutP1, cutP2]"
  using types_ringP
  by (simp add: front_ring_def edge_front_def ringP_def upt_rec [of 0] upt_rec [of 1]
      upt_rec [of 2] crossing_def type_distinct crossing_vertex_def crossing_parameter_def
      lerp3_def lerp_def vP0_def vP1_def vP2_def dot_def sub_def Let_def cutP1_def cutP2_def)

lemma back_ring_ringP: "back_ring (Vec3 0 0 1) (- 1) ringP = [cutP1, vP1, vP2, cutP2]"
  using types_ringP
  by (simp add: back_ring_def edge_back_def ringP_def upt_rec [of 0] upt_rec [of 1]
      upt_rec [of 2] crossing_def type_distinct crossing_vertex_def crossing_parameter_def
      lerp3_def lerp_def vP0_def vP1_def vP2_def dot_def sub_def Let_def cutP1_def cutP2_def)

theorem splitPolygon_contract_witness:
  "fst (splitPolygon 0 0 0 1 2 3 (\<lambda>_. [], heapABC)) 0 = [0] \<and>
   fst (splitPolygon 1 0 0 1 2 3 (\<lambda>_. [], heapABC)) 2 = [0] \<and>
   fst (splitPolygon 0 2 0 1 2 3 (\<lambda>_. [], heapABC)) 3 = [2] \<and>
   fst (splitPolygon 0 1 0 1 2 3 (\<lambda>_. [], heapABC)) 2 = [3] \<and>
   fst (splitPolygon 0 1 0 1 2 3 (\<lambda>_. [], heapABC)) 3 = [4] \<and>
   map position (vertices (polys (snd (splitPolygon 0 1 0 1 2 3 (\<lambda>_. [], heapABC))) 3)) =
     [Vec3 0 0 1, Vec3 0 (1 / 2) 0, Vec3 0 (2 / 3) 0] \<and>
   map position (vertices (polys (snd (splitPolygon 0 1 0 1 2 3 (\<lambda>_. [], heapABC))) 4)) =
     [Vec3 0 (1 / 2) 0, Vec3 0 1 (- 1), Vec3 0 2 (- 2), Vec3 0 (2 / 3) 0] \<and>
   polys (snd (splitPolygon 0 1 0 1 2 3 (\<lambda>_. [], heapABC))) 1 = polys heapABC 1 \<and>
   fst (splitPolygon 2 3 0 1 2 3 (\<lambda>_. [], heapP)) 2 = [4] \<and>
   fst (splitPolygon 2 3 0 1 2 3 (\<lambda>_. [], heapP)) 3 = [5] \<and>
   vertices (polys (snd (splitPolygon 2 3 0 1 2 3 (\<lambda>_. [], heapP))) 4)
     = [vP0, cutP1, cutP2] \<and>
   vertices (polys (snd (splitPolygon 2 3 0 1 2 3 (\<lambda>_. [], heapP))) 5)
     = [cutP1, vP1, vP2, cutP2] \<and>
   polys (snd (splitPolygon 2 3 0 1 2 3 (\<lambda>_. [], heapP))) 3 = \<lparr>vertices = ringP, plane = 3\<rparr> \<and>
   polys heapP 3 = \<lparr>vertices = ringP, plane = 3\<rparr> \<and>
   classify (Vec3 0 0 1) 0 (vtx 0 0 (1 / 100000)) = COPLANAR \<and>
   classify (Vec3 0 0 1) 0 (vtx 0 0 (1 / 50000)) = FRONT \<and>
   classify (Vec3 0 0 1) 0 (vtx 0 0 (- (1 / 50000))) = BACK"
proof -
  have tyA: "map (classify (Vec3 0 0 1) 0) triA = [COPLANAR, COPLANAR, COPLANAR]"
    and tyA1: "map (classify (Vec3 1 0 0) 0) triA = [COPLANAR, FRONT, COPLANAR]"
    and tyB: "map (classify (Vec3 0 0 1) 0) triB = [FRONT, BACK, BACK]"
    and tyC: "map (classify (Vec3 0 0 1) 0) triC = [BACK, BACK, BACK]"
    by (simp_all add: triA_def triB_def triC_def classify_vtx)
  have fr: "front_ring (Vec3 0 0 1) 0 triB =
              [vtx 0 0 1, Vertex (Vec3 0 (1 / 2) 0) (Some (Vec3 0 0 0)) (Some (0, 0)),
               Vertex (Vec3 0 (2 / 3) 0) (Some (Vec3 0 0 0)) (Some (0, 0))]"
    using tyB
    by (simp add: front_ring_def edge_front_def triB_def upt_rec [of 0] upt_rec [of 1]
        upt_rec [of 2] crossing_def type_distinct crossing_vertex_def crossing_parameter_def lerp3_def lerp_def
        vtx_def Vertex_def dot_def sub_def add_def mul_def Let_def)
  have bk: "back_ring (Vec3 0 0 1) 0 triB =
              [Vertex (Vec3 0 (1 / 2) 0) (Some (Vec3 0 0 0)) (Some (0, 0)), vtx 0 1 (- 1),
               vtx 0 2 (- 2), Vertex (Vec3 0 (2 / 3) 0) (Some (Vec3 0 0 0)) (Some (0, 0))]"
    using tyB
    by (simp add: back_ring_def edge_back_def triB_def upt_rec [of 0] upt_rec [of 1]
        upt_rec [of 2] crossing_def type_distinct crossing_vertex_def crossing_parameter_def lerp3_def lerp_def
        vtx_def Vertex_def dot_def sub_def add_def mul_def Let_def)
  have cut: "fst (splitPolygon 2 3 0 1 2 3 (\<lambda>_. [], heapP)) 2 = [4] \<and>
   fst (splitPolygon 2 3 0 1 2 3 (\<lambda>_. [], heapP)) 3 = [5] \<and>
   vertices (polys (snd (splitPolygon 2 3 0 1 2 3 (\<lambda>_. [], heapP))) 4)
     = [vP0, cutP1, cutP2] \<and>
   vertices (polys (snd (splitPolygon 2 3 0 1 2 3 (\<lambda>_. [], heapP))) 5)
     = [cutP1, vP1, vP2, cutP2] \<and>
   polys (snd (splitPolygon 2 3 0 1 2 3 (\<lambda>_. [], heapP))) 3 = \<lparr>vertices = ringP, plane = 3\<rparr> \<and>
   polys heapP 3 = \<lparr>vertices = ringP, plane = 3\<rparr>"
    using splitPolygon_contract [where s = "(\<lambda>_. [], heapP)" and pl = 2 and polygon = 3
        and cf = 0 and cb = 1 and fr = 2 and bk = 3]
    by (simp add: heapP_obs types_ringP front_ring_ringP back_ring_ringP type_distinct push_def)
  have whole: "fst (splitPolygon 0 0 0 1 2 3 (\<lambda>_. [], heapABC)) 0 = [0] \<and>
   fst (splitPolygon 1 0 0 1 2 3 (\<lambda>_. [], heapABC)) 2 = [0] \<and>
   fst (splitPolygon 0 2 0 1 2 3 (\<lambda>_. [], heapABC)) 3 = [2] \<and>
   fst (splitPolygon 0 1 0 1 2 3 (\<lambda>_. [], heapABC)) 2 = [3] \<and>
   fst (splitPolygon 0 1 0 1 2 3 (\<lambda>_. [], heapABC)) 3 = [4] \<and>
   map position (vertices (polys (snd (splitPolygon 0 1 0 1 2 3 (\<lambda>_. [], heapABC))) 3)) =
     [Vec3 0 0 1, Vec3 0 (1 / 2) 0, Vec3 0 (2 / 3) 0] \<and>
   map position (vertices (polys (snd (splitPolygon 0 1 0 1 2 3 (\<lambda>_. [], heapABC))) 4)) =
     [Vec3 0 (1 / 2) 0, Vec3 0 1 (- 1), Vec3 0 2 (- 2), Vec3 0 (2 / 3) 0] \<and>
   polys (snd (splitPolygon 0 1 0 1 2 3 (\<lambda>_. [], heapABC))) 1 = polys heapABC 1"
    using splitPolygon_contract [where s = "(\<lambda>_. [], heapABC)" and pl = 0 and polygon = 0
        and cf = 0 and cb = 1 and fr = 2 and bk = 3]
      splitPolygon_contract [where s = "(\<lambda>_. [], heapABC)" and pl = 1 and polygon = 0
        and cf = 0 and cb = 1 and fr = 2 and bk = 3]
      splitPolygon_contract [where s = "(\<lambda>_. [], heapABC)" and pl = 0 and polygon = 2
        and cf = 0 and cb = 1 and fr = 2 and bk = 3]
      splitPolygon_contract [where s = "(\<lambda>_. [], heapABC)" and pl = 0 and polygon = 1
        and cf = 0 and cb = 1 and fr = 2 and bk = 3]
    by (simp add: heapABC_eq tyA tyA1 tyB tyC fr bk type_distinct push_def dot_def
        vtx_def Vertex_def)
  have thr: "classify (Vec3 0 0 1) 0 (vtx 0 0 (1 / 100000)) = COPLANAR \<and>
   classify (Vec3 0 0 1) 0 (vtx 0 0 (1 / 50000)) = FRONT \<and>
   classify (Vec3 0 0 1) 0 (vtx 0 0 (- (1 / 50000))) = BACK"
    using splitPolygon_contract [where s = "(\<lambda>_. [], heapABC)" and pl = 0 and polygon = 0
        and cf = 0 and cb = 1 and fr = 2 and bk = 3]
    by (simp add: heapABC_eq dot_def vtx_def Vertex_def)
  show ?thesis
    using whole cut thr by simp
qed

subsection \<open>Flipping, as parities\<close>

text \<open>What one \<open>flip\<close> does to a polygon object, and \<open>k\<close> flips in a row.\<close>

definition flip_ring :: "polygon \<Rightarrow> polygon" where
  "flip_ring p = p\<lparr>vertices := map negate_normal (rev (vertices p))\<rparr>"

definition times_odd :: "nat \<Rightarrow> ('a \<Rightarrow> 'a) \<Rightarrow> 'a \<Rightarrow> 'a" where
  "times_odd k f x = (if odd k then f x else x)"

definition flipped :: "(ref \<Rightarrow> nat) \<Rightarrow> (ref \<Rightarrow> nat) \<Rightarrow> heap \<Rightarrow> heap" where
  "flipped cv cn h =
     h\<lparr>polys := (\<lambda>r. times_odd (cv r) flip_ring (polys h r)),
       planes := (\<lambda>a. times_odd (cn a) negate_plane (planes h a))\<rparr>"

fun mirror :: "bsp \<Rightarrow> bsp" where
  "mirror (Node pl fr bk ps) = Node pl (map_option mirror bk) (map_option mirror fr) ps"

fun node_planes :: "bsp \<Rightarrow> ref list" where
  "node_planes (Node pl fr bk ps) =
     (case pl of None \<Rightarrow> [] | Some a \<Rightarrow> [a])
     @ (case fr of None \<Rightarrow> [] | Some t \<Rightarrow> node_planes t)
     @ (case bk of None \<Rightarrow> [] | Some t \<Rightarrow> node_planes t)"

lemma mul_neg_neg: "mul (mul v (- 1)) (- 1) = v"
  by (simp add: mul_def)

lemma negate_normal_twice: "negate_normal (negate_normal v) = v"
  by (simp add: negate_normal_def mul_neg_neg)

lemma negate_plane_twice: "negate_plane (negate_plane pl) = pl"
  by (simp add: negate_plane_def mul_neg_neg)

lemma flip_ring_twice: "flip_ring (flip_ring p) = p"
  by (simp add: flip_ring_def rev_map negate_normal_twice comp_def)

lemma plane_flip_ring: "plane (flip_ring p) = plane p"
  by (simp add: flip_ring_def)

lemma plane_times_odd: "plane (times_odd k flip_ring p) = plane p"
  by (simp add: times_odd_def plane_flip_ring)

lemma times_odd_Suc:
  assumes "\<And>x. f (f x) = x"
  shows "f (times_odd k f x) = times_odd (Suc k) f x"
  using assms by (simp add: times_odd_def)

lemma flipped_zero: "flipped (\<lambda>_. 0) (\<lambda>_. 0) h = h"
  by (simp add: flipped_def times_odd_def)

lemma flip_plane_flipped:
  "flip_plane a (flipped cv cn h) = flipped cv (cn(a := Suc (cn a))) h"
  by (auto simp: flip_plane_def flipped_def fun_eq_iff times_odd_Suc negate_plane_twice
      intro!: heap.equality)

lemma flip_flipped:
  "flip r (flipped cv cn h) =
     flipped (cv(r := Suc (cv r))) (cn(plane (polys h r) := Suc (cn (plane (polys h r))))) h"
proof -
  have 1: "(polys (flipped cv cn h) r)\<lparr>vertices :=
             map negate_normal (rev (vertices (polys (flipped cv cn h) r)))\<rparr>
           = times_odd (Suc (cv r)) flip_ring (polys h r)"
    using times_odd_Suc [of flip_ring "cv r" "polys h r"] flip_ring_twice
    by (simp add: flipped_def flip_ring_def)
  show ?thesis
    unfolding flip_def Let_def
    apply (simp add: 1)
    apply (simp add: flipped_def plane_times_odd flip_plane_def)
    apply (auto simp: fun_eq_iff times_odd_Suc negate_plane_twice flip_ring_twice
        intro!: heap.equality)
    done
qed


lemma flip_all_flipped:
  "flip_all ps (flipped cv cn h) =
     flipped (\<lambda>r. cv r + count_list ps r)
             (\<lambda>a. cn a + count_list (map (\<lambda>r. plane (polys h r)) ps) a) h"
proof (induction ps arbitrary: cv cn)
  case Nil
  show ?case by (simp add: flip_all_def)
next
  case (Cons p ps)
  have "flip_all (p # ps) (flipped cv cn h) = flip_all ps (flip p (flipped cv cn h))"
    by (simp add: flip_all_def)
  also have "\<dots> = flipped (\<lambda>r. (cv(p := Suc (cv p))) r + count_list ps r)
      (\<lambda>a. (cn(plane (polys h p) := Suc (cn (plane (polys h p))))) a
            + count_list (map (\<lambda>r. plane (polys h r)) ps) a) h"
    by (simp only: flip_flipped Cons.IH)
  also have "\<dots> = flipped (\<lambda>r. cv r + count_list (p # ps) r)
             (\<lambda>a. cn a + count_list (map (\<lambda>r. plane (polys h r)) (p # ps)) a) h"
    by (rule arg_cong2 [where f = "\<lambda>x y. flipped x y h"]) (auto simp: fun_eq_iff)
  finally show ?case .
qed

definition tree_flips :: "heap \<Rightarrow> bsp \<Rightarrow> ref list" where
  "tree_flips h t = node_planes t @ map (\<lambda>r. plane (polys h r)) (allPolygons t)"

lemma invert_flipped:
  "invert t (flipped cv cn h) =
     (mirror t, flipped (\<lambda>r. cv r + count_list (allPolygons t) r)
                        (\<lambda>a. cn a + count_list (tree_flips h t) a) h)"
proof (induction t arbitrary: cv cn)
  case (Node pl fr bk ps)
  define cv1 where "cv1 = (\<lambda>r. cv r + count_list ps r)"
  define cn1 where "cn1 = (\<lambda>a. cn a + count_list (map (\<lambda>r. plane (polys h r)) ps) a)"
  define cn2 where "cn2 = (\<lambda>a. cn1 a + count_list (case pl of None \<Rightarrow> [] | Some a \<Rightarrow> [a]) a)"
  have h1: "flip_all ps (flipped cv cn h) = flipped cv1 cn1 h"
    by (simp add: flip_all_flipped cv1_def cn1_def)
  have h2: "(case pl of None \<Rightarrow> flipped cv1 cn1 h | Some a \<Rightarrow> flip_plane a (flipped cv1 cn1 h))
              = flipped cv1 cn2 h"
    by (cases pl)
       (auto simp: flip_plane_flipped cn2_def fun_eq_iff
          intro!: arg_cong2 [where f = "\<lambda>x y. flipped x y h"])
  define cv3 where
    "cv3 = (\<lambda>r. cv1 r + count_list (case fr of None \<Rightarrow> [] | Some t \<Rightarrow> allPolygons t) r)"
  define cn3 where
    "cn3 = (\<lambda>a. cn2 a + count_list (case fr of None \<Rightarrow> [] | Some t \<Rightarrow> tree_flips h t) a)"
  have h3: "(case fr of None \<Rightarrow> (None, flipped cv1 cn2 h)
             | Some t \<Rightarrow> (let (t', h') = invert t (flipped cv1 cn2 h) in (Some t', h')))
            = (map_option mirror fr, flipped cv3 cn3 h)"
  proof (cases fr)
    case None
    then show ?thesis by (simp add: cv3_def cn3_def)
  next
    case (Some t)
    then show ?thesis
      using Node.IH(1) [of t cv1 cn2] by (simp add: cv3_def cn3_def)
  qed
  define cv4 where
    "cv4 = (\<lambda>r. cv3 r + count_list (case bk of None \<Rightarrow> [] | Some t \<Rightarrow> allPolygons t) r)"
  define cn4 where
    "cn4 = (\<lambda>a. cn3 a + count_list (case bk of None \<Rightarrow> [] | Some t \<Rightarrow> tree_flips h t) a)"
  have h4: "(case bk of None \<Rightarrow> (None, flipped cv3 cn3 h)
             | Some t \<Rightarrow> (let (t', h') = invert t (flipped cv3 cn3 h) in (Some t', h')))
            = (map_option mirror bk, flipped cv4 cn4 h)"
  proof (cases bk)
    case None
    then show ?thesis by (simp add: cv4_def cn4_def)
  next
    case (Some t)
    then show ?thesis
      using Node.IH(2) [of t cv3 cn3] by (simp add: cv4_def cn4_def)
  qed
  have cv: "cv4 = (\<lambda>r. cv r + count_list (allPolygons (Node pl fr bk ps)) r)"
    by (auto simp: cv4_def cv3_def cv1_def fun_eq_iff split: option.splits)
  have cn: "cn4 = (\<lambda>a. cn a + count_list (tree_flips h (Node pl fr bk ps)) a)"
    by (auto simp: cn4_def cn3_def cn2_def cn1_def tree_flips_def fun_eq_iff split: option.splits)
  have "invert (Node pl fr bk ps) (flipped cv cn h)
          = (mirror (Node pl fr bk ps), flipped cv4 cn4 h)"
    by (simp add: h1 h2 h3 h4)
  then show ?case
    unfolding cv cn .
qed


lemma invert_eq:
  "invert t h =
     (mirror t, flipped (count_list (allPolygons t)) (count_list (tree_flips h t)) h)"
  using invert_flipped [of t "\<lambda>_. 0" "\<lambda>_. 0" h] by (simp add: flipped_zero)

lemma mirror_mirror: "mirror (mirror t) = t"
  by (induction t) (auto simp: option.map_comp comp_def intro!: option.map_ident_strong)

lemma count_allPolygons_mirror:
  "count_list (allPolygons (mirror t)) r = count_list (allPolygons t) r"
  by (induction t) (auto split: option.splits)

lemma count_node_planes_mirror:
  "count_list (node_planes (mirror t)) a = count_list (node_planes t) a"
  by (induction t) (auto split: option.splits)

lemma count_map_allPolygons_mirror:
  "count_list (map f (allPolygons (mirror t))) a = count_list (map f (allPolygons t)) a"
  by (induction t) (auto split: option.splits)

lemma count_tree_flips_mirror:
  "count_list (tree_flips h (mirror t)) a = count_list (tree_flips h t) a"
  by (simp add: tree_flips_def count_node_planes_mirror count_map_allPolygons_mirror)

lemma flipped_even:
  assumes "\<And>r. even (cv r)" "\<And>a. even (cn a)"
  shows "flipped cv cn h = h"
  using assms by (simp add: flipped_def times_odd_def)

lemma invert_involution:
  "invert (mirror t) (flipped (count_list (allPolygons t)) (count_list (tree_flips h t)) h)
     = (t, h)"
  by (simp add: invert_flipped mirror_mirror count_allPolygons_mirror count_tree_flips_mirror
      flipped_even)

lemma invert_invert: "(case invert t h of (t', h') \<Rightarrow> invert t' h') = (t, h)"
  by (simp only: invert_eq [of t h] prod.case invert_involution)

lemma flip_flip: "flip r (flip r h) = h"
proof -
  have "flip r (flip r (flipped (\<lambda>_. 0) (\<lambda>_. 0) h)) = h"
    by (simp only: flip_flipped) (simp add: flipped_even)
  then show ?thesis by (simp add: flipped_zero)
qed

subsection \<open>Objects allocated since a given moment\<close>

text \<open>
  \<open>fresh_zone n0 h\<close>: every polygon object allocated at or after address \<open>n0\<close> has
  its plane object at or after \<open>n0\<close>. \<open>same_below n0\<close>: the objects below \<open>n0\<close> are
  the same in both stores.
\<close>

definition fresh_zone :: "nat \<Rightarrow> heap \<Rightarrow> bool" where
  "fresh_zone n0 h \<longleftrightarrow>
     n0 \<le> next_ref h \<and> (\<forall>r. n0 \<le> r \<and> r < next_ref h \<longrightarrow> n0 \<le> plane (polys h r))"

definition same_below :: "nat \<Rightarrow> heap \<Rightarrow> heap \<Rightarrow> bool" where
  "same_below n0 h h' \<longleftrightarrow> (\<forall>r < n0. polys h' r = polys h r \<and> planes h' r = planes h r)"

definition refs_in :: "nat \<Rightarrow> nat \<Rightarrow> ref list \<Rightarrow> bool" where
  "refs_in n0 m rs \<longleftrightarrow> (\<forall>r \<in> set rs. n0 \<le> r \<and> r < m)"

definition tree_in :: "nat \<Rightarrow> nat \<Rightarrow> bsp \<Rightarrow> bool" where
  "tree_in n0 m t \<longleftrightarrow> refs_in n0 m (allPolygons t) \<and> (\<forall>a \<in> set (node_planes t). n0 \<le> a)"

definition state_ok :: "nat \<Rightarrow> arrays \<times> heap \<Rightarrow> bool" where
  "state_ok n0 s \<longleftrightarrow> fresh_zone n0 (snd s) \<and> (\<forall>k. refs_in n0 (next_ref (snd s)) (fst s k))"

lemma refs_in_mono: "refs_in n0 m rs \<Longrightarrow> m \<le> m' \<Longrightarrow> refs_in n0 m' rs"
  by (auto simp: refs_in_def)

lemma tree_in_mono: "tree_in n0 m t \<Longrightarrow> m \<le> m' \<Longrightarrow> tree_in n0 m' t"
  by (auto simp: tree_in_def intro: refs_in_mono)

lemma refs_in_append: "refs_in n0 m (xs @ ys) \<longleftrightarrow> refs_in n0 m xs \<and> refs_in n0 m ys"
  by (auto simp: refs_in_def)

lemma refs_in_Nil: "refs_in n0 m []"
  by (simp add: refs_in_def)

lemma heap_extends_next: "heap_extends h h' \<Longrightarrow> next_ref h \<le> next_ref h'"
  by (simp add: heap_extends_def)

lemma heap_extends_same_below: "heap_extends h h' \<Longrightarrow> n0 \<le> next_ref h \<Longrightarrow> same_below n0 h h'"
  by (simp add: heap_extends_def same_below_def)

lemma same_below_refl: "same_below n0 h h"
  by (simp add: same_below_def)

lemma same_below_trans: "same_below n0 h1 h2 \<Longrightarrow> same_below n0 h2 h3 \<Longrightarrow> same_below n0 h1 h3"
  by (simp add: same_below_def)

lemma emit_ring_ok:
  assumes "state_ok n0 s"
  shows "state_ok n0 (emit_ring a ring s)"
proof (cases "3 \<le> length ring")
  case False
  with assms show ?thesis by (simp add: emit_ring_def)
next
  case True
  have fz: "fresh_zone n0 (snd (alloc_Polygon ring (snd s)))"
    using assms by (auto simp: state_ok_def alloc_Polygon_def Let_def fresh_zone_def)
  have "refs_in n0 (Suc (next_ref (snd s))) (fst s k)" for k
    using assms by (auto simp: state_ok_def intro: refs_in_mono)
  moreover have "n0 \<le> next_ref (snd s)"
    using assms by (simp add: state_ok_def fresh_zone_def)
  ultimately
  have "refs_in n0 (Suc (next_ref (snd s))) (push a (next_ref (snd s)) (fst s) k)" for k
    by (simp add: push_def refs_in_def)
  with fz True show ?thesis
    by (simp add: state_ok_def emit_ring_def alloc_Polygon_def Let_def)
qed

lemma splitPolygon_ok:
  assumes "state_ok n0 s" "n0 \<le> poly" "poly < next_ref (snd s)"
  shows "state_ok n0 (splitPolygon pl poly cf cb fr bk s)"
proof -
  have p: "state_ok n0 (push a poly (fst s), snd s)" for a
    using assms by (auto simp: state_ok_def push_def refs_in_def)
  have e: "state_ok n0 (emit_ring bk b (emit_ring fr f s))" for f b
    using assms(1) by (intro emit_ring_ok)
  show ?thesis
    using p e assms(1)
    by (simp add: splitPolygon_def Let_def split: prod.splits)
qed

lemma fold_split_ok:
  assumes "state_ok n0 s" "refs_in n0 (next_ref (snd s)) ps"
  shows "state_ok n0 (fold (\<lambda>p. splitPolygon pl p cf cb fr bk) ps s) \<and>
         heap_extends (snd s) (snd (fold (\<lambda>p. splitPolygon pl p cf cb fr bk) ps s))"
  using assms
proof (induction ps arbitrary: s)
  case Nil
  then show ?case by (simp add: heap_extends_refl)
next
  case (Cons p ps)
  let ?s = "splitPolygon pl p cf cb fr bk s"
  have ok: "state_ok n0 ?s"
    using Cons.prems by (intro splitPolygon_ok) (auto simp: refs_in_def)
  have ext: "heap_extends (snd s) (snd ?s)"
    by (rule heap_extends_splitPolygon)
  have "refs_in n0 (next_ref (snd ?s)) ps"
    using Cons.prems(2) heap_extends_next [OF ext] by (auto simp: refs_in_def)
  from Cons.IH [OF ok this] ext show ?case
    by (auto intro: heap_extends_trans)
qed


lemma clip_split_ok:
  assumes "fresh_zone n0 h" "refs_in n0 (next_ref h) ps"
  shows "fresh_zone n0 (snd (clip_split a ps h))"
    and "refs_in n0 (next_ref (snd (clip_split a ps h))) (fst (clip_split a ps h) k)"
    and "heap_extends h (snd (clip_split a ps h))"
proof -
  have "state_ok n0 (\<lambda>_. [], h)"
    using assms(1) by (simp add: state_ok_def refs_in_def)
  from fold_split_ok [OF this, of ps a 0 1 0 1] assms(2)
  show "fresh_zone n0 (snd (clip_split a ps h))"
    and "refs_in n0 (next_ref (snd (clip_split a ps h))) (fst (clip_split a ps h) k)"
    and "heap_extends h (snd (clip_split a ps h))"
    by (simp_all add: clip_split_def state_ok_def)
qed

lemma build_split_ok:
  assumes "fresh_zone n0 h" "refs_in n0 (next_ref h) ps" "refs_in n0 (next_ref h) ps0"
  shows "fresh_zone n0 (snd (build_split a ps0 ps h))"
    and "refs_in n0 (next_ref (snd (build_split a ps0 ps h))) (fst (build_split a ps0 ps h) k)"
    and "heap_extends h (snd (build_split a ps0 ps h))"
proof -
  have "state_ok n0 ((\<lambda>_. [])(0 := ps0), h)"
    using assms(1,3) by (simp add: state_ok_def refs_in_def)
  from fold_split_ok [OF this, of ps a 0 0 1 2] assms(2)
  show "fresh_zone n0 (snd (build_split a ps0 ps h))"
    and "refs_in n0 (next_ref (snd (build_split a ps0 ps h))) (fst (build_split a ps0 ps h) k)"
    and "heap_extends h (snd (build_split a ps0 ps h))"
    by (simp_all add: build_split_def state_ok_def)
qed

lemma clipPolygons_ok:
  assumes "fresh_zone n0 h" "refs_in n0 (next_ref h) ps"
  shows "fresh_zone n0 (snd (clipPolygons t ps h)) \<and>
         refs_in n0 (next_ref (snd (clipPolygons t ps h))) (fst (clipPolygons t ps h)) \<and>
         heap_extends h (snd (clipPolygons t ps h))"
  using assms
proof (induction t arbitrary: ps h)
  case (Node pl fr bk qs)
  show ?case
  proof (cases pl)
    case None
    with Node.prems show ?thesis by (simp add: heap_extends_refl)
  next
    case (Some a)
    obtain arrs h1 where cs: "clip_split a ps h = (arrs, h1)"
      by (cases "clip_split a ps h")
    have fz1: "fresh_zone n0 h1" and in1: "\<And>k. refs_in n0 (next_ref h1) (arrs k)"
      and ext1: "heap_extends h h1"
      using clip_split_ok [OF Node.prems, of a] cs by simp_all
    obtain front1 h2 where f: "(case fr of None \<Rightarrow> (arrs 0, h1)
                                 | Some t \<Rightarrow> clipPolygons t (arrs 0) h1) = (front1, h2)"
      by (cases "(case fr of None \<Rightarrow> (arrs 0, h1) | Some t \<Rightarrow> clipPolygons t (arrs 0) h1)")
    have fz2: "fresh_zone n0 h2" and in2: "refs_in n0 (next_ref h2) front1"
      and ext2: "heap_extends h1 h2"
      using f fz1 in1 [of 0] Node.IH(1) [of _ h1 "arrs 0"]
      by (auto split: option.splits simp: heap_extends_refl)
    obtain back1 h3 where b: "(case bk of None \<Rightarrow> (arrs 1, h2)
                                | Some t \<Rightarrow> clipPolygons t (arrs 1) h2) = (back1, h3)"
      by (cases "(case bk of None \<Rightarrow> (arrs 1, h2) | Some t \<Rightarrow> clipPolygons t (arrs 1) h2)")
    have in1': "refs_in n0 (next_ref h2) (arrs 1)"
      using in1 [of 1] heap_extends_next [OF ext2] by (rule refs_in_mono)
    have fz3: "fresh_zone n0 h3" and in3: "refs_in n0 (next_ref h3) back1"
      and ext3: "heap_extends h2 h3"
      using b fz2 in1' Node.IH(2) [of _ h2 "arrs 1"]
      by (auto split: option.splits simp: heap_extends_refl)
    have "refs_in n0 (next_ref h3) front1"
      using in2 heap_extends_next [OF ext3] by (rule refs_in_mono)
    moreover have "heap_extends h h3"
      using ext1 ext2 ext3 by (blast intro: heap_extends_trans)
    ultimately show ?thesis
      using Some cs f b fz3 in3 by (simp add: refs_in_append)
  qed
qed


lemma tree_in_Node:
  "tree_in n0 m (Node pl fr bk ps) \<longleftrightarrow>
     refs_in n0 m ps \<and> (\<forall>a. pl = Some a \<longrightarrow> n0 \<le> a) \<and>
     (\<forall>t. fr = Some t \<longrightarrow> tree_in n0 m t) \<and> (\<forall>t. bk = Some t \<longrightarrow> tree_in n0 m t)"
  by (auto simp: tree_in_def refs_in_def split: option.splits)

lemma clipTo_ok:
  assumes "fresh_zone n0 h" "tree_in n0 (next_ref h) t"
  shows "fresh_zone n0 (snd (clipTo t bsp h)) \<and>
         tree_in n0 (next_ref (snd (clipTo t bsp h))) (fst (clipTo t bsp h)) \<and>
         heap_extends h (snd (clipTo t bsp h))"
  using assms
proof (induction t arbitrary: h)
  case (Node pl fr bk ps)
  note t = Node.prems(2) [unfolded tree_in_Node]
  obtain ps' h1 where c: "clipPolygons bsp ps h = (ps', h1)"
    by (cases "clipPolygons bsp ps h")
  have fz1: "fresh_zone n0 h1" and in1: "refs_in n0 (next_ref h1) ps'" and ext1: "heap_extends h h1"
    using clipPolygons_ok [OF Node.prems(1), of ps bsp] t c by simp_all
  obtain fr' h2 where f: "(case fr of None \<Rightarrow> (None, h1)
      | Some t \<Rightarrow> (let (t', h') = clipTo t bsp h1 in (Some t', h'))) = (fr', h2)"
    by (cases "(case fr of None \<Rightarrow> (None, h1)
      | Some t \<Rightarrow> (let (t', h') = clipTo t bsp h1 in (Some t', h')))")
  have fz2: "fresh_zone n0 h2" and in2: "\<And>t. fr' = Some t \<Longrightarrow> tree_in n0 (next_ref h2) t"
    and ext2: "heap_extends h1 h2"
  proof -
    show "fresh_zone n0 h2 "
      using f fz1 t Node.IH(1) [of _ h1] tree_in_mono [OF _ heap_extends_next [OF ext1]]
      by (auto split: option.splits prod.splits)
    show "\<And>t. fr' = Some t \<Longrightarrow> tree_in n0 (next_ref h2) t"
      using f fz1 t Node.IH(1) [of _ h1] tree_in_mono [OF _ heap_extends_next [OF ext1]]
      by (auto split: option.splits prod.splits)
    show "heap_extends h1 h2"
      using f fz1 t Node.IH(1) [of _ h1] tree_in_mono [OF _ heap_extends_next [OF ext1]]
      by (auto split: option.splits prod.splits simp: heap_extends_refl)
  qed
  obtain bk' h3 where b: "(case bk of None \<Rightarrow> (None, h2)
      | Some t \<Rightarrow> (let (t', h') = clipTo t bsp h2 in (Some t', h'))) = (bk', h3)"
    by (cases "(case bk of None \<Rightarrow> (None, h2)
      | Some t \<Rightarrow> (let (t', h') = clipTo t bsp h2 in (Some t', h')))")
  have le2: "next_ref h \<le> next_ref h2"
    using heap_extends_next [OF ext1] heap_extends_next [OF ext2] by simp
  have fz3: "fresh_zone n0 h3" and in3: "\<And>t. bk' = Some t \<Longrightarrow> tree_in n0 (next_ref h3) t"
    and ext3: "heap_extends h2 h3"
  proof -
    show "fresh_zone n0 h3"
      using b fz2 t Node.IH(2) [of _ h2] tree_in_mono [OF _ le2]
      by (auto split: option.splits prod.splits)
    show "\<And>t. bk' = Some t \<Longrightarrow> tree_in n0 (next_ref h3) t"
      using b fz2 t Node.IH(2) [of _ h2] tree_in_mono [OF _ le2]
      by (auto split: option.splits prod.splits)
    show "heap_extends h2 h3"
      using b fz2 t Node.IH(2) [of _ h2] tree_in_mono [OF _ le2]
      by (auto split: option.splits prod.splits simp: heap_extends_refl)
  qed
  have res: "clipTo (Node pl fr bk ps) bsp h = (Node pl fr' bk' ps', h3)"
    using c f b by simp
  have "tree_in n0 (next_ref h3) (Node pl fr' bk' ps')"
    unfolding tree_in_Node
    using t in1 in2 in3 heap_extends_next [OF ext2] heap_extends_next [OF ext3]
    by (auto intro: refs_in_mono tree_in_mono)
  moreover have "heap_extends h h3"
    using ext1 ext2 ext3 by (blast intro: heap_extends_trans)
  ultimately show ?case
    unfolding res using fz3 by simp
qed



lemma tree_in_empty_node: "tree_in n0 m empty_node"
  by (simp add: empty_node_def tree_in_def refs_in_def)

lemma build_ok:
  assumes "fresh_zone n0 h" "tree_in n0 (next_ref h) t" "refs_in n0 (next_ref h) polys0"
  shows "fresh_zone n0 (snd (build t polys0 h)) \<and>
         tree_in n0 (next_ref (snd (build t polys0 h))) (fst (build t polys0 h)) \<and>
         heap_extends h (snd (build t polys0 h))"
  using assms
proof (induction t polys0 h rule: build.induct)
  case (1 pl fr bk ps polys0 h)
  note t = "1.prems"(2) [unfolded tree_in_Node]
  show ?case
  proof (cases "polys0 = [] \<or> 1000 < length ps")
    case True
    then show ?thesis
      using "1.prems" by (simp add: heap_extends_refl)
  next
    case False
    define a where "a = (case pl of None \<Rightarrow> plane (polys h (polys0 ! 0)) | Some a \<Rightarrow> a)"
    obtain arrs h1 where bs: "build_split a ps polys0 h = (arrs, h1)"
      by (cases "build_split a ps polys0 h")
    have fz1: "fresh_zone n0 h1" and in1: "\<And>k. refs_in n0 (next_ref h1) (arrs k)"
      and ext1: "heap_extends h h1"
      using build_split_ok [OF "1.prems"(1,3), of ps a] t bs by simp_all
    have a: "n0 \<le> a"
    proof (cases pl)
      case None
      have "polys0 ! 0 \<in> set polys0" using False by simp
      then have "n0 \<le> polys0 ! 0 \<and> polys0 ! 0 < next_ref h"
        using "1.prems"(3) by (simp add: refs_in_def)
      then show ?thesis
        using "1.prems"(1) None by (simp add: a_def fresh_zone_def)
    next
      case (Some a')
      then show ?thesis using t by (simp add: a_def)
    qed
    define tf where "tf = (case fr of None \<Rightarrow> empty_node | Some t \<Rightarrow> t)"
    define front_block where "front_block =
         (if arrs 1 \<noteq> []
          then if length (arrs 1) \<noteq> length polys0
               then case build tf (arrs 1) h1 of (t', y) \<Rightarrow> (Some t', y)
               else (Some tf, h1)
          else (fr, h1))"
    obtain fr' h2 where fb: "front_block = (fr', h2)"
      by (cases front_block)
    have tf_in: "tree_in n0 (next_ref h1) tf"
      using t tree_in_mono [OF _ heap_extends_next [OF ext1]]
      by (auto simp: tf_def tree_in_empty_node split: option.splits)
    have frontP: "fresh_zone n0 h2 \<and> (\<forall>t. fr' = Some t \<longrightarrow> tree_in n0 (next_ref h2) t) \<and>
                 heap_extends h1 h2"
    proof (cases "arrs 1 \<noteq> [] \<and> length (arrs 1) \<noteq> length polys0")
      case True
      have "fresh_zone n0 (snd (build tf (arrs 1) h1)) \<and>
            tree_in n0 (next_ref (snd (build tf (arrs 1) h1))) (fst (build tf (arrs 1) h1)) \<and>
            heap_extends h1 (snd (build tf (arrs 1) h1))"
        using True False
        by (intro "1.IH"(1) [OF False a_def bs [symmetric] refl _ tf_def _ fz1 tf_in in1]) auto
      then show ?thesis
        using fb True by (auto simp: front_block_def split: prod.splits)
    next
      case False
      then show ?thesis
        using fb fz1 tf_in t tree_in_mono [OF _ heap_extends_next [OF ext1]]
        by (auto simp: front_block_def tf_def heap_extends_refl tree_in_empty_node
            split: if_splits option.splits)
    qed
    define tb where "tb = (case bk of None \<Rightarrow> empty_node | Some t \<Rightarrow> t)"
    define back_block where "back_block =
         (if arrs 2 \<noteq> []
          then if length (arrs 2) \<noteq> length polys0
               then case build tb (arrs 2) h2 of (t', y) \<Rightarrow> (Some t', y)
               else (Some tb, h2)
          else (bk, h2))"
    obtain bk' h3 where bb: "back_block = (bk', h3)"
      by (cases back_block)
    have le2: "next_ref h \<le> next_ref h2"
      using heap_extends_next [OF ext1] frontP heap_extends_next [of h1 h2] by simp
    have tb_in: "tree_in n0 (next_ref h2) tb"
      using t tree_in_mono [OF _ le2]
      by (auto simp: tb_def tree_in_empty_node split: option.splits)
    have in2: "refs_in n0 (next_ref h2) (arrs 2)"
      using in1 [of 2] frontP heap_extends_next [of h1 h2] by (auto intro: refs_in_mono)
    have backP: "fresh_zone n0 h3 \<and> (\<forall>t. bk' = Some t \<longrightarrow> tree_in n0 (next_ref h3) t) \<and>
                 heap_extends h2 h3"
    proof (cases "arrs 2 \<noteq> [] \<and> length (arrs 2) \<noteq> length polys0")
      case True
      have "fresh_zone n0 (snd (build tb (arrs 2) h2)) \<and>
            tree_in n0 (next_ref (snd (build tb (arrs 2) h2))) (fst (build tb (arrs 2) h2)) \<and>
            heap_extends h2 (snd (build tb (arrs 2) h2))"
        using True False frontP
        by (intro "1.IH"(2) [unfolded Let_def, OF False a_def bs [symmetric] refl
              front_block_def [unfolded fb tf_def] refl _ tb_def _ _ tb_in in2])
           auto
      then show ?thesis
        using bb True by (auto simp: back_block_def split: prod.splits)
    next
      case False
      then show ?thesis
        using bb frontP tb_in t tree_in_mono [OF _ le2]
        by (auto simp: back_block_def tb_def heap_extends_refl tree_in_empty_node
            split: if_splits option.splits)
    qed
    have res: "build (Node pl fr bk ps) polys0 h = (Node (Some a) fr' bk' (arrs 0), h3)"
      apply (subst build.simps)
      unfolding Let_def a_def [symmetric] tf_def [symmetric] tb_def [symmetric] bs prod.case
        front_block_def [symmetric] fb back_block_def [symmetric] bb
      using False by simp
    have "tree_in n0 (next_ref h3) (Node (Some a) fr' bk' (arrs 0))"
      unfolding tree_in_Node
      using a in1 [of 0] frontP backP heap_extends_next [of h1 h2] heap_extends_next [of h2 h3]
      by (auto intro: refs_in_mono tree_in_mono)
    moreover have "heap_extends h h3"
      using ext1 frontP backP by (blast intro: heap_extends_trans)
    ultimately show ?thesis
      unfolding res using backP by simp
  qed
qed


lemma set_allPolygons_mirror: "set (allPolygons (mirror t)) = set (allPolygons t)"
  by (induction t) (auto split: option.splits)

lemma set_node_planes_mirror: "set (node_planes (mirror t)) = set (node_planes t)"
  by (induction t) (auto split: option.splits)

lemma tree_in_mirror: "tree_in n0 m (mirror t) = tree_in n0 m t"
  by (simp add: tree_in_def refs_in_def set_allPolygons_mirror set_node_planes_mirror)

lemma next_ref_flipped: "next_ref (flipped cv cn h) = next_ref h"
  by (simp add: flipped_def)

lemma plane_polys_flipped: "plane (polys (flipped cv cn h) r) = plane (polys h r)"
  by (simp add: flipped_def plane_times_odd)

lemma fresh_zone_flipped: "fresh_zone n0 (flipped cv cn h) = fresh_zone n0 h"
  by (simp add: fresh_zone_def next_ref_flipped plane_polys_flipped)

lemma tree_flips_above:
  assumes "fresh_zone n0 h" "tree_in n0 (next_ref h) t" "a \<in> set (tree_flips h t)"
  shows "n0 \<le> a"
  using assms by (auto simp: tree_flips_def tree_in_def refs_in_def fresh_zone_def)

lemma invert_ok:
  assumes "fresh_zone n0 h" "tree_in n0 (next_ref h) t"
  shows "fresh_zone n0 (snd (invert t h)) \<and>
         tree_in n0 (next_ref (snd (invert t h))) (fst (invert t h)) \<and>
         same_below n0 h (snd (invert t h)) \<and>
         next_ref (snd (invert t h)) = next_ref h"
proof -
  have "count_list (allPolygons t) r = 0" if "r < n0" for r
    using assms(2) that by (auto simp: tree_in_def refs_in_def count_list_0_iff)
  moreover have "count_list (tree_flips h t) r = 0" if "r < n0" for r
    using tree_flips_above [OF assms, of r] that by (auto simp: count_list_0_iff)
  ultimately have "same_below n0 h
      (flipped (count_list (allPolygons t)) (count_list (tree_flips h t)) h)"
    by (simp add: same_below_def flipped_def times_odd_def)
  then show ?thesis
    using assms
    by (simp add: invert_eq fresh_zone_flipped next_ref_flipped tree_in_mirror)
qed

lemma clone_all_ok:
  assumes "clone_all ps h = Inr (rs, h')" "fresh_zone n0 h"
  shows "fresh_zone n0 h' \<and> refs_in n0 (next_ref h') rs \<and> heap_extends h h'"
  using assms
proof (induction ps arbitrary: h rs h')
  case Nil
  then show ?case by (auto simp: refs_in_def heap_extends_refl)
next
  case (Cons p ps)
  from Cons.prems(1) obtain h1 rs1 where
    a: "3 \<le> length (vertices (polys h p))"
    and h1: "h1 = snd (alloc_Polygon (map Vertex_clone (vertices (polys h p))) h)"
    and r: "clone_all ps h1 = Inr (rs1, h')" "rs = next_ref h # rs1"
    by (auto simp: Polygon_clone_def new_Polygon_def alloc_Polygon_def Let_def
        split: if_splits sum.splits)
  have fz1: "fresh_zone n0 h1"
    using Cons.prems(2) by (auto simp: h1 alloc_Polygon_def Let_def fresh_zone_def)
  have ext1: "heap_extends h h1"
    unfolding h1 by (rule heap_extends_alloc)
  have n1: "next_ref h1 = Suc (next_ref h)"
    by (simp add: h1 alloc_Polygon_def Let_def)
  from Cons.IH [OF r(1) fz1]
  have "fresh_zone n0 h'" "refs_in n0 (next_ref h') rs1" "heap_extends h1 h'" by simp_all
  then show ?case
    using ext1 r(2) n1 Cons.prems(2) heap_extends_next [of h1 h']
    by (auto simp: refs_in_def fresh_zone_def intro: heap_extends_trans)
qed

lemma clone_all_total:
  assumes "\<forall>r \<in> set ps. r < next_ref h \<and> 3 \<le> length (vertices (polys h r))"
  shows "\<exists>rs h'. clone_all ps h = Inr (rs, h')"
  using assms
proof (induction ps arbitrary: h)
  case Nil
  show ?case by simp
next
  case (Cons p ps)
  define h1 where "h1 = snd (alloc_Polygon (map Vertex_clone (vertices (polys h p))) h)"
  have pc: "Polygon_clone p h = Inr (next_ref h, h1)"
    using Cons.prems by (simp add: Polygon_clone_def new_Polygon_def h1_def alloc_Polygon_def Let_def)
  have "heap_extends h h1"
    unfolding h1_def by (rule heap_extends_alloc)
  then have "\<forall>r \<in> set ps. r < next_ref h1 \<and> 3 \<le> length (vertices (polys h1 r))"
    using Cons.prems by (auto simp: heap_extends_def)
  from Cons.IH [OF this] obtain rs h' where "clone_all ps h1 = Inr (rs, h')" by blast
  then show ?case
    by (simp add: pc)
qed

definition advance :: "nat \<Rightarrow> heap \<Rightarrow> heap \<Rightarrow> bool" where
  "advance n0 h h' \<longleftrightarrow> fresh_zone n0 h' \<and> next_ref h \<le> next_ref h' \<and> same_below n0 h h'"

lemma advance_trans: "advance n0 h1 h2 \<Longrightarrow> advance n0 h2 h3 \<Longrightarrow> advance n0 h1 h3"
  by (auto simp: advance_def intro: same_below_trans)

lemma advance_tree: "advance n0 h h' \<Longrightarrow> tree_in n0 (next_ref h) t \<Longrightarrow> tree_in n0 (next_ref h') t"
  by (auto simp: advance_def intro: tree_in_mono)

lemma advance_fresh: "advance n0 h h' \<Longrightarrow> fresh_zone n0 h'"
  by (simp add: advance_def)

lemma heap_extends_advance:
  "heap_extends h h' \<Longrightarrow> fresh_zone n0 h \<Longrightarrow> fresh_zone n0 h' \<Longrightarrow> advance n0 h h'"
  by (simp add: advance_def heap_extends_next heap_extends_same_below fresh_zone_def)

lemma clipTo_adv:
  assumes "fresh_zone n0 h" "tree_in n0 (next_ref h) t" "clipTo t bsp h = (t', h')"
  shows "advance n0 h h' \<and> tree_in n0 (next_ref h') t'"
  using clipTo_ok [OF assms(1,2), of bsp] assms(1,3) by (simp add: heap_extends_advance)

lemma build_adv:
  assumes "fresh_zone n0 h" "tree_in n0 (next_ref h) t" "tree_in n0 (next_ref h) b"
    "build t (allPolygons b) h = (t', h')"
  shows "advance n0 h h' \<and> tree_in n0 (next_ref h') t'"
proof -
  have "refs_in n0 (next_ref h) (allPolygons b)"
    using assms(3) by (simp add: tree_in_def)
  from build_ok [OF assms(1,2) this] assms(1,4) show ?thesis
    by (simp add: heap_extends_advance)
qed

lemma invert_adv:
  assumes "fresh_zone n0 h" "tree_in n0 (next_ref h) t" "invert t h = (t', h')"
  shows "advance n0 h h' \<and> tree_in n0 (next_ref h') t'"
  using invert_ok [OF assms(1,2)] assms(3) by (auto simp: advance_def)

lemma BSPNode_adv:
  assumes "fresh_zone n0 h" "refs_in n0 (next_ref h) ps" "BSPNode ps h = (t', h')"
  shows "advance n0 h h' \<and> tree_in n0 (next_ref h') t'"
  using build_ok [OF assms(1) tree_in_empty_node assms(2)] assms(1,3)
  by (simp add: BSPNode_def heap_extends_advance)

lemma CSG_clone_adv:
  assumes "fresh_zone n0 h" "CSG_clone c h = Inr (c', h')"
  shows "advance n0 h h' \<and> refs_in n0 (next_ref h') (polygons c')"
proof -
  from assms(2) obtain rs where "clone_all (polygons c) h = Inr (rs, h')" "c' = \<lparr>polygons = rs\<rparr>"
    by (auto simp: CSG_clone_def split: sum.splits)
  with clone_all_ok [OF this(1) assms(1)] assms(1) show ?thesis
    by (simp add: heap_extends_advance)
qed

lemma two_trees_adv:
  assumes "fresh_zone n0 h" "two_trees A B h = Inr ((a, b), h')"
  shows "advance n0 h h' \<and> tree_in n0 (next_ref h') a \<and> tree_in n0 (next_ref h') b"
proof -
  from assms(2) obtain c1 h1 h2 c2 h3 where
    s1: "CSG_clone A h = Inr (c1, h1)" and s2: "BSPNode (polygons c1) h1 = (a, h2)"
    and s3: "CSG_clone B h2 = Inr (c2, h3)" and s4: "BSPNode (polygons c2) h3 = (b, h')"
    by (auto simp: two_trees_def split: sum.splits prod.splits)
  have 1: "advance n0 h h1" "refs_in n0 (next_ref h1) (polygons c1)"
    using CSG_clone_adv [OF assms(1) s1] by simp_all
  have z1: "fresh_zone n0 h1" using 1 by (simp add: advance_def)
  have 2: "advance n0 h1 h2" "tree_in n0 (next_ref h2) a"
    using BSPNode_adv [OF z1 1(2) s2] by simp_all
  have z2: "fresh_zone n0 h2" using 2 by (simp add: advance_def)
  have 3: "advance n0 h2 h3" "refs_in n0 (next_ref h3) (polygons c2)"
    using CSG_clone_adv [OF z2 s3] by simp_all
  have z3: "fresh_zone n0 h3" using 3 by (simp add: advance_def)
  have 4: "advance n0 h3 h'" "tree_in n0 (next_ref h') b"
    using BSPNode_adv [OF z3 3(2) s4] by simp_all
  have "tree_in n0 (next_ref h') a"
    using 2 3 4 by (blast intro: advance_tree)
  moreover have "advance n0 h h'"
    using 1 2 3 4 by (blast intro: advance_trans)
  ultimately show ?thesis using 4 by simp
qed

lemma fresh_zone_start: "fresh_zone (next_ref h) h"
  by (simp add: fresh_zone_def)

lemma tree_in_result: "tree_in n0 m t \<Longrightarrow> r \<in> set (allPolygons t) \<Longrightarrow> n0 \<le> r"
  by (simp add: tree_in_def refs_in_def)

lemma CSG_union_adv:
  assumes "fresh_zone n0 h" "CSG_union A B h = Inr (c, h')"
  shows "advance n0 h h' \<and> (\<forall>r \<in> set (polygons c). n0 \<le> r)"
proof -
  obtain a0 b0 h0 where s0: "two_trees A B h = Inr ((a0, b0), h0)"
    using assms(2) by (cases "two_trees A B h") (auto simp: CSG_union_def)
  obtain a1 h1 where s1: "clipTo a0 b0 h0 = (a1, h1)"
    by (cases "clipTo a0 b0 h0")
  obtain b1 h2 where s2: "clipTo b0 a1 h1 = (b1, h2)"
    by (cases "clipTo b0 a1 h1")
  obtain b2 h3 where s3: "invert b1 h2 = (b2, h3)"
    by (cases "invert b1 h2")
  obtain b3 h4 where s4: "clipTo b2 a1 h3 = (b3, h4)"
    by (cases "clipTo b2 a1 h3")
  obtain b4 h5 where s5: "invert b3 h4 = (b4, h5)"
    by (cases "invert b3 h4")
  obtain a2 h6 where s6: "build a1 (allPolygons b4) h5 = (a2, h6)"
    by (cases "build a1 (allPolygons b4) h5")
  have c: "c = fromPolygons (allPolygons a2)" and hh: "h' = h6"
    using assms(2) by (simp_all add: CSG_union_def s0 s1 s2 s3 s4 s5 s6)
  note 0 = two_trees_adv [OF assms(1) s0]
  have A0: "advance n0 h h0" using 0 by simp
  have z0: "fresh_zone n0 h0" and a0: "tree_in n0 (next_ref h0) a0" and b0: "tree_in n0 (next_ref h0) b0"
    using 0 by (simp_all add: advance_def)
  note 1 = clipTo_adv [OF z0 a0 s1]
  have A1: "advance n0 h h1" using A0 1 by (blast intro: advance_trans)
  have z1: "fresh_zone n0 h1" and a1: "tree_in n0 (next_ref h1) a1" and b0': "tree_in n0 (next_ref h1) b0"
    using 1 b0 by (auto simp: advance_def intro: tree_in_mono)
  note 2 = clipTo_adv [OF z1 b0' s2]
  have A2: "advance n0 h h2" using A1 2 by (blast intro: advance_trans)
  have z2: "fresh_zone n0 h2" and b1: "tree_in n0 (next_ref h2) b1"
    using 2 by (simp_all add: advance_def)
  note 3 = invert_adv [OF z2 b1 s3]
  have A3: "advance n0 h h3" using A2 3 by (blast intro: advance_trans)
  have z3: "fresh_zone n0 h3" and b2: "tree_in n0 (next_ref h3) b2"
    using 3 by (simp_all add: advance_def)
  note 4 = clipTo_adv [OF z3 b2 s4]
  have A4: "advance n0 h h4" using A3 4 by (blast intro: advance_trans)
  have z4: "fresh_zone n0 h4" and b3: "tree_in n0 (next_ref h4) b3"
    using 4 by (simp_all add: advance_def)
  note 5 = invert_adv [OF z4 b3 s5]
  have A5: "advance n0 h h5" using A4 5 by (blast intro: advance_trans)
  have z5: "fresh_zone n0 h5" and b4: "tree_in n0 (next_ref h5) b4"
    using 5 by (simp_all add: advance_def)
  have a1': "tree_in n0 (next_ref h5) a1"
    using a1 2 3 4 5 by (auto simp: advance_def intro: tree_in_mono)
  note 6 = build_adv [OF z5 a1' b4 s6]
  have A6: "advance n0 h h6" using A5 6 by (blast intro: advance_trans)
  have "advance n0 h h'"
    unfolding hh by (rule A6)
  moreover have "\<forall>r \<in> set (polygons c). n0 \<le> r"
    using 6 by (auto simp: c fromPolygons_def dest: tree_in_result)
  ultimately show ?thesis by simp
qed


lemma CSG_subtract_adv:
  assumes "fresh_zone n0 h" "CSG_subtract A B h = Inr (c, h')"
  shows "advance n0 h h' \<and> (\<forall>r \<in> set (polygons c). n0 \<le> r)"
proof -
  obtain a0 b0 h0 where s0: "two_trees A B h = Inr ((a0, b0), h0)"
    using assms(2) by (cases "two_trees A B h") (auto simp: CSG_subtract_def)
  obtain a1 h1 where s1: "invert a0 h0 = (a1, h1)"
    by (cases "invert a0 h0")
  obtain a2 h2 where s2: "clipTo a1 b0 h1 = (a2, h2)"
    by (cases "clipTo a1 b0 h1")
  obtain b1 h3 where s3: "clipTo b0 a2 h2 = (b1, h3)"
    by (cases "clipTo b0 a2 h2")
  obtain b2 h4 where s4: "invert b1 h3 = (b2, h4)"
    by (cases "invert b1 h3")
  obtain b3 h5 where s5: "clipTo b2 a2 h4 = (b3, h5)"
    by (cases "clipTo b2 a2 h4")
  obtain b4 h6 where s6: "invert b3 h5 = (b4, h6)"
    by (cases "invert b3 h5")
  obtain a3 h7 where s7: "build a2 (allPolygons b4) h6 = (a3, h7)"
    by (cases "build a2 (allPolygons b4) h6")
  obtain a4 h8 where s8: "invert a3 h7 = (a4, h8)"
    by (cases "invert a3 h7")
  have c: "c = fromPolygons (allPolygons a4)" and hh: "h' = h8"
    using assms(2) by (simp_all add: CSG_subtract_def s0 s1 s2 s3 s4 s5 s6 s7 s8)
  note 0 = two_trees_adv [OF assms(1) s0]
  have A0: "advance n0 h h0" using 0 by simp
  have z0: "fresh_zone n0 h0" and a0: "tree_in n0 (next_ref h0) a0" and b0: "tree_in n0 (next_ref h0) b0"
    using 0 by (simp_all add: advance_def)
  note 1 = invert_adv [OF z0 a0 s1]
  have A1: "advance n0 h h1" using A0 1 by (blast intro: advance_trans)
  have z1: "fresh_zone n0 h1" and a1: "tree_in n0 (next_ref h1) a1"
    using 1 by (simp_all add: advance_def)
  note 2 = clipTo_adv [OF z1 a1 s2]
  have A2: "advance n0 h h2" using A1 2 by (blast intro: advance_trans)
  have z2: "fresh_zone n0 h2" and a2: "tree_in n0 (next_ref h2) a2"
    and b0': "tree_in n0 (next_ref h2) b0"
    using 1 2 b0 by (auto simp: advance_def intro: tree_in_mono)
  note 3 = clipTo_adv [OF z2 b0' s3]
  have A3: "advance n0 h h3" using A2 3 by (blast intro: advance_trans)
  have z3: "fresh_zone n0 h3" and b1: "tree_in n0 (next_ref h3) b1"
    using 3 by (simp_all add: advance_def)
  note 4 = invert_adv [OF z3 b1 s4]
  have A4: "advance n0 h h4" using A3 4 by (blast intro: advance_trans)
  have z4: "fresh_zone n0 h4" and b2: "tree_in n0 (next_ref h4) b2"
    using 4 by (simp_all add: advance_def)
  note 5 = clipTo_adv [OF z4 b2 s5]
  have A5: "advance n0 h h5" using A4 5 by (blast intro: advance_trans)
  have z5: "fresh_zone n0 h5" and b3: "tree_in n0 (next_ref h5) b3"
    using 5 by (simp_all add: advance_def)
  note 6 = invert_adv [OF z5 b3 s6]
  have A6: "advance n0 h h6" using A5 6 by (blast intro: advance_trans)
  have z6: "fresh_zone n0 h6" and b4: "tree_in n0 (next_ref h6) b4"
    using 6 by (simp_all add: advance_def)
  have a2': "tree_in n0 (next_ref h6) a2"
    using a2 3 4 5 6 by (auto simp: advance_def intro: tree_in_mono)
  note 7 = build_adv [OF z6 a2' b4 s7]
  have A7: "advance n0 h h7" using A6 7 by (blast intro: advance_trans)
  have z7: "fresh_zone n0 h7" and a3: "tree_in n0 (next_ref h7) a3"
    using 7 by (simp_all add: advance_def)
  note 8 = invert_adv [OF z7 a3 s8]
  have A8: "advance n0 h h8" using A7 8 by (blast intro: advance_trans)
  have "advance n0 h h'"
    unfolding hh by (rule A8)
  moreover have "\<forall>r \<in> set (polygons c). n0 \<le> r"
    using 8 by (auto simp: c fromPolygons_def dest: tree_in_result)
  ultimately show ?thesis by simp
qed

lemma CSG_intersect_adv:
  assumes "fresh_zone n0 h" "CSG_intersect A B h = Inr (c, h')"
  shows "advance n0 h h' \<and> (\<forall>r \<in> set (polygons c). n0 \<le> r)"
proof -
  obtain a0 b0 h0 where s0: "two_trees A B h = Inr ((a0, b0), h0)"
    using assms(2) by (cases "two_trees A B h") (auto simp: CSG_intersect_def)
  obtain a1 h1 where s1: "invert a0 h0 = (a1, h1)"
    by (cases "invert a0 h0")
  obtain b1 h2 where s2: "clipTo b0 a1 h1 = (b1, h2)"
    by (cases "clipTo b0 a1 h1")
  obtain b2 h3 where s3: "invert b1 h2 = (b2, h3)"
    by (cases "invert b1 h2")
  obtain a2 h4 where s4: "clipTo a1 b2 h3 = (a2, h4)"
    by (cases "clipTo a1 b2 h3")
  obtain b3 h5 where s5: "clipTo b2 a2 h4 = (b3, h5)"
    by (cases "clipTo b2 a2 h4")
  obtain a3 h6 where s6: "build a2 (allPolygons b3) h5 = (a3, h6)"
    by (cases "build a2 (allPolygons b3) h5")
  obtain a4 h7 where s7: "invert a3 h6 = (a4, h7)"
    by (cases "invert a3 h6")
  have c: "c = fromPolygons (allPolygons a4)" and hh: "h' = h7"
    using assms(2) by (simp_all add: CSG_intersect_def s0 s1 s2 s3 s4 s5 s6 s7)
  note 0 = two_trees_adv [OF assms(1) s0]
  have A0: "advance n0 h h0" using 0 by simp
  have z0: "fresh_zone n0 h0" and a0: "tree_in n0 (next_ref h0) a0" and b0: "tree_in n0 (next_ref h0) b0"
    using 0 by (simp_all add: advance_def)
  note 1 = invert_adv [OF z0 a0 s1]
  have A1: "advance n0 h h1" using A0 1 by (blast intro: advance_trans)
  have z1: "fresh_zone n0 h1" and a1: "tree_in n0 (next_ref h1) a1"
    and b0': "tree_in n0 (next_ref h1) b0"
    using 1 b0 by (auto simp: advance_def intro: tree_in_mono)
  note 2 = clipTo_adv [OF z1 b0' s2]
  have A2: "advance n0 h h2" using A1 2 by (blast intro: advance_trans)
  have z2: "fresh_zone n0 h2" and b1: "tree_in n0 (next_ref h2) b1"
    using 2 by (simp_all add: advance_def)
  note 3 = invert_adv [OF z2 b1 s3]
  have A3: "advance n0 h h3" using A2 3 by (blast intro: advance_trans)
  have z3: "fresh_zone n0 h3" and b2: "tree_in n0 (next_ref h3) b2"
    and a1': "tree_in n0 (next_ref h3) a1"
    using 2 3 a1 by (auto simp: advance_def intro: tree_in_mono)
  note 4 = clipTo_adv [OF z3 a1' s4]
  have A4: "advance n0 h h4" using A3 4 by (blast intro: advance_trans)
  have z4: "fresh_zone n0 h4" and a2: "tree_in n0 (next_ref h4) a2"
    and b2': "tree_in n0 (next_ref h4) b2"
    using 4 b2 by (auto simp: advance_def intro: tree_in_mono)
  note 5 = clipTo_adv [OF z4 b2' s5]
  have A5: "advance n0 h h5" using A4 5 by (blast intro: advance_trans)
  have z5: "fresh_zone n0 h5" and b3: "tree_in n0 (next_ref h5) b3"
    and a2': "tree_in n0 (next_ref h5) a2"
    using 5 a2 by (auto simp: advance_def intro: tree_in_mono)
  note 6 = build_adv [OF z5 a2' b3 s6]
  have A6: "advance n0 h h6" using A5 6 by (blast intro: advance_trans)
  have z6: "fresh_zone n0 h6" and a3: "tree_in n0 (next_ref h6) a3"
    using 6 by (simp_all add: advance_def)
  note 7 = invert_adv [OF z6 a3 s7]
  have A7: "advance n0 h h7" using A6 7 by (blast intro: advance_trans)
  have "advance n0 h h'"
    unfolding hh by (rule A7)
  moreover have "\<forall>r \<in> set (polygons c). n0 \<le> r"
    using 7 by (auto simp: c fromPolygons_def dest: tree_in_result)
  ultimately show ?thesis by simp
qed

lemma flip_all_adv:
  assumes "fresh_zone n0 h" "refs_in n0 (next_ref h) ps"
  shows "advance n0 h (flip_all ps h)"
proof -
  have eq: "flip_all ps h =
      flipped (count_list ps) (count_list (map (\<lambda>r. plane (polys h r)) ps)) h"
    using flip_all_flipped [of ps "\<lambda>_. 0" "\<lambda>_. 0" h] by (simp add: flipped_zero)
  have "count_list ps r = 0" if "r < n0" for r
    using assms(2) that by (auto simp: refs_in_def count_list_0_iff)
  moreover have "count_list (map (\<lambda>r. plane (polys h r)) ps) r = 0" if "r < n0" for r
    using assms that by (auto simp: refs_in_def fresh_zone_def count_list_0_iff)
  ultimately have "same_below n0 h (flip_all ps h)"
    by (simp add: eq same_below_def flipped_def times_odd_def)
  then show ?thesis
    using assms(1) by (simp add: advance_def eq fresh_zone_flipped next_ref_flipped)
qed

lemma CSG_inverse_adv:
  assumes "fresh_zone n0 h" "CSG_inverse A h = Inr (c, h')"
  shows "advance n0 h h' \<and> (\<forall>r \<in> set (polygons c). n0 \<le> r)"
proof -
  from assms(2) obtain h1 where
    s1: "CSG_clone A h = Inr (c, h1)" and s2: "h' = flip_all (polygons c) h1"
    by (auto simp: CSG_inverse_def split: sum.splits)
  have 1: "advance n0 h h1" "refs_in n0 (next_ref h1) (polygons c)"
    using CSG_clone_adv [OF assms(1) s1] by simp_all
  have "advance n0 h1 h'"
    unfolding s2 using 1 by (intro flip_all_adv) (simp_all add: advance_def)
  with 1 show ?thesis
    by (auto simp: refs_in_def intro: advance_trans)
qed


definition well_formed :: "heap \<Rightarrow> csg \<Rightarrow> bool" where
  "well_formed h c \<longleftrightarrow>
     (\<forall>r \<in> set (polygons c). r < next_ref h \<and> 3 \<le> length (vertices (polys h r)))"

lemma well_formed_ext: "well_formed h c \<Longrightarrow> heap_extends h h' \<Longrightarrow> well_formed h' c"
  by (auto simp: well_formed_def heap_extends_def)

lemma CSG_clone_total:
  assumes "well_formed h c"
  shows "\<exists>c' h'. CSG_clone c h = Inr (c', h')"
  using clone_all_total [of "polygons c" h] assms
  by (auto simp: CSG_clone_def well_formed_def)

lemma advance_ext:
  "advance (next_ref h) h h' \<Longrightarrow> heap_extends h h'"
  by (simp add: advance_def heap_extends_def same_below_def)

lemma two_trees_total:
  assumes "well_formed h A" "well_formed h B"
  shows "\<exists>a b h'. two_trees A B h = Inr ((a, b), h')"
proof -
  obtain c1 h1 where s1: "CSG_clone A h = Inr (c1, h1)"
    using CSG_clone_total [OF assms(1)] by blast
  obtain a h2 where s2: "BSPNode (polygons c1) h1 = (a, h2)"
    by (cases "BSPNode (polygons c1) h1")
  have 1: "advance (next_ref h) h h1" "refs_in (next_ref h) (next_ref h1) (polygons c1)"
    using CSG_clone_adv [OF fresh_zone_start s1] by simp_all
  have z1: "fresh_zone (next_ref h) h1" using 1 by (simp add: advance_def)
  have 2: "advance (next_ref h) h1 h2"
    using BSPNode_adv [OF z1 1(2) s2] by simp
  have "advance (next_ref h) h h2"
    using 1 2 by (blast intro: advance_trans)
  then have "well_formed h2 B"
    using assms(2) by (blast intro: well_formed_ext advance_ext)
  then obtain c2 h3 where s3: "CSG_clone B h2 = Inr (c2, h3)"
    using CSG_clone_total by blast
  show ?thesis
    by (simp add: two_trees_def s1 s2 s3 split: prod.splits)
qed

lemma CSG_union_total:
  assumes "well_formed h A" "well_formed h B"
  shows "\<exists>c h'. CSG_union A B h = Inr (c, h')"
proof -
  obtain a b h0 where "two_trees A B h = Inr ((a, b), h0)"
    using two_trees_total [OF assms] by blast
  then show ?thesis
    by (simp add: CSG_union_def split: prod.splits)
qed

lemma CSG_subtract_total:
  assumes "well_formed h A" "well_formed h B"
  shows "\<exists>c h'. CSG_subtract A B h = Inr (c, h')"
proof -
  obtain a b h0 where "two_trees A B h = Inr ((a, b), h0)"
    using two_trees_total [OF assms] by blast
  then show ?thesis
    by (simp add: CSG_subtract_def split: prod.splits)
qed

lemma CSG_intersect_total:
  assumes "well_formed h A" "well_formed h B"
  shows "\<exists>c h'. CSG_intersect A B h = Inr (c, h')"
proof -
  obtain a b h0 where "two_trees A B h = Inr ((a, b), h0)"
    using two_trees_total [OF assms] by blast
  then show ?thesis
    by (simp add: CSG_intersect_def split: prod.splits)
qed

lemma CSG_inverse_total:
  assumes "well_formed h A"
  shows "\<exists>c h'. CSG_inverse A h = Inr (c, h')"
  using CSG_clone_total [OF assms] by (auto simp: CSG_inverse_def)

text \<open>
  Claim C4. Whenever \<open>union\<close>, \<open>subtract\<close>, \<open>intersect\<close> or \<open>inverse\<close> returns, every
  polygon object and every plane object that existed before the call is unchanged
  (vertex order, positions, normals, uvs, plane), and every polygon of the result is an
  object allocated during the call: the operands are cloned first, and all later
  updates go to the clones.
\<close>

theorem operations_leave_operands:
  assumes "CSG_union A B h = Inr (c, h') \<or> CSG_subtract A B h = Inr (c, h') \<or>
           CSG_intersect A B h = Inr (c, h') \<or> CSG_inverse A h = Inr (c, h')"
  shows "(\<forall>r < next_ref h. polys h' r = polys h r \<and> planes h' r = planes h r) \<and>
         (\<forall>r \<in> set (polygons c). next_ref h \<le> r) \<and> next_ref h \<le> next_ref h'"
proof -
  have "advance (next_ref h) h h' \<and> (\<forall>r \<in> set (polygons c). next_ref h \<le> r)"
    using assms CSG_union_adv [OF fresh_zone_start, where h = h and A = A and B = B]
      CSG_subtract_adv [OF fresh_zone_start, where h = h and A = A and B = B]
      CSG_intersect_adv [OF fresh_zone_start, where h = h and A = A and B = B]
      CSG_inverse_adv [OF fresh_zone_start, where h = h and A = A]
    by blast
  then show ?thesis
    by (simp add: advance_def same_below_def)
qed

lemma next_ref_heapABC: "next_ref heapABC = 3"
  by (simp add: heapABC_eq)

lemma well_formed_heapABC:
  "well_formed heapABC \<lparr>polygons = [0]\<rparr>" "well_formed heapABC \<lparr>polygons = [1]\<rparr>"
  by (simp_all add: well_formed_def heapABC_eq triA_def triB_def)

theorem operations_leave_operands_witness:
  "\<exists>c h'. CSG_union \<lparr>polygons = [0]\<rparr> \<lparr>polygons = [1]\<rparr> heapABC = Inr (c, h') \<and>
           polys h' 0 = polys heapABC 0 \<and> planes h' 0 = planes heapABC 0 \<and>
           polys h' 1 = polys heapABC 1 \<and> planes h' 1 = planes heapABC 1 \<and>
           (\<forall>r. r \<in> set (polygons c) \<longrightarrow> 3 \<le> r)"
proof -
  obtain c h' where u: "CSG_union \<lparr>polygons = [0]\<rparr> \<lparr>polygons = [1]\<rparr> heapABC = Inr (c, h')"
    using CSG_union_total [OF well_formed_heapABC] by blast
  from operations_leave_operands [where A = "\<lparr>polygons = [0]\<rparr>" and B = "\<lparr>polygons = [1]\<rparr>"
      and h = heapABC and c = c and h' = h'] u
  show ?thesis
    by (simp add: next_ref_heapABC)
qed

subsection \<open>fromGeometry and the errors of the engine\<close>

definition gridA :: "vec3 list" where
  "gridA = [Vec3 0 0 0, Vec3 1 0 0, Vec3 0 1 0, Vec3 0 0 (- 1), Vec3 1 0 (- 1), Vec3 0 1 (- 1)]"

definition faceA :: face where
  "faceA = \<lparr>face_vertices = [0, 1, 2], face_uvs = None\<rparr>"

definition faceC :: face where
  "faceC = \<lparr>face_vertices = [3, 4, 5], face_uvs = None\<rparr>"

definition ring_view :: "error + csg \<times> heap \<Rightarrow> error + (ref \<times> vertex list \<times> plane) list" where
  "ring_view res =
     (case res of
        Inl e \<Rightarrow> Inl e
      | Inr (c, h) \<Rightarrow>
          Inr (map (\<lambda>r. (r, vertices (polys h r), planes h (plane (polys h r)))) (polygons c)))"

lemma upt_3: "[0..<3] = [0, 1, 2]"
  by (simp add: upt_rec)

lemma calculatePlane_triA_more: "calculatePlane (triA @ vs) = \<lparr>pnormal = Vec3 0 0 1, pw = 0\<rparr>"
  by (simp add: calculatePlane_def triA_def vtx_def Vertex_def sub_def cross_def normalize_def
      vlength_def dot_def Let_def)

text \<open>
  Claim C2 says that the \<open>i\<close>-th polygon of \<open>fromGeometry\<close> holds exactly the
  vertices of the \<open>i\<close>-th face. The code builds every polygon on the one array
  \<open>faceVertices\<close>, which is never emptied between faces: on two triangular faces both
  polygons end with all six vertices, and the second polygon takes its plane from the
  first three of them, the vertices of the first face.
\<close>

theorem fromGeometry_shares_ring:
  "ring_view (fromGeometry gridA [faceA, faceC] None None heap0) =
     Inr [(0, triA @ triC, \<lparr>pnormal = Vec3 0 0 1, pw = 0\<rparr>),
          (1, triA @ triC, \<lparr>pnormal = Vec3 0 0 1, pw = 0\<rparr>)]"
proof -
  have f1: "face_loop gridA None None faceA [0..<length (face_vertices faceA)] [] = Inr triA"
    by (simp add: face_vertex_def faceA_def gridA_def lookup_def triA_def vtx_def Let_def upt_3)
  have f2: "face_loop gridA None None faceC [0..<length (face_vertices faceC)] triA
              = Inr (triA @ triC)"
    by (simp add: face_vertex_def faceC_def gridA_def lookup_def triA_def triC_def vtx_def
        Let_def upt_3)
  have n: "length triA = 3" "length triC = 3"
    by (simp_all add: triA_def triC_def)
  show ?thesis
    by (simp add: fromGeometry_def f1 f2 new_Polygon_def n alloc_Polygon_def Let_def
        share_array_def heap0_def ring_view_def calculatePlane_triA calculatePlane_triA_more)
qed

text \<open>
  Claim C8 says that no operation raises on malformed input, faces with fewer than 3
  indices included. On a first face of two indices \<open>fromGeometry\<close> raises: the
  constructor reads \<open>vertices[2].position\<close>.
\<close>

theorem fromGeometry_short_face_raises:
  "fromGeometry gridA [\<lparr>face_vertices = [0, 1], face_uvs = None\<rparr>] None None heap0
     = Inl TypeError"
  by (simp add: fromGeometry_def face_vertex_def gridA_def lookup_def new_Polygon_def
      Let_def upt_rec)


definition indices_ok :: "vec3 list \<Rightarrow> (real \<times> real) list option \<Rightarrow> face list \<Rightarrow> bool" where
  "indices_ok vertices0 uvs faces \<longleftrightarrow>
     (\<forall>f \<in> set faces. (\<forall>i \<in> set (face_vertices f). i < length vertices0) \<and>
                        (uvs \<noteq> None \<longrightarrow> face_uvs f \<noteq> None))"

lemma face_vertex_ok:
  assumes "face_vertices f ! i < length vertices0" "uvs \<noteq> None \<longrightarrow> face_uvs f \<noteq> None"
  shows "\<exists>v. face_vertex vertices0 normals uvs f i = Inr v"
  using assms by (auto simp: face_vertex_def lookup_def Let_def split: option.splits)

lemma face_loop_ok:
  assumes "\<forall>i \<in> set is. face_vertices f ! i < length vertices0"
    "uvs \<noteq> None \<longrightarrow> face_uvs f \<noteq> None"
  shows "\<exists>vs. face_loop vertices0 normals uvs f is acc = Inr (acc @ vs) \<and> length vs = length is"
  using assms(1)
proof (induction "is" arbitrary: acc)
  case Nil
  show ?case by simp
next
  case (Cons i "is")
  obtain v where v: "face_vertex vertices0 normals uvs f i = Inr v"
    using face_vertex_ok [of f i vertices0 uvs normals] Cons.prems assms(2) by auto
  obtain vs where "face_loop vertices0 normals uvs f is (acc @ [v]) = Inr ((acc @ [v]) @ vs)"
    "length vs = length is"
    using Cons.IH [of "acc @ [v]"] Cons.prems by auto
  then show ?case
    by (intro exI [of _ "v # vs"]) (simp add: v)
qed

lemma faces_loop_raises:
  assumes "indices_ok vertices0 uvs fcs"
  shows "(\<exists>e. faces_loop vertices0 normals uvs fcs acc created h = Inl e) \<longleftrightarrow>
         (fcs \<noteq> [] \<and> length acc + length (face_vertices (hd fcs)) < 3)"
  using assms
proof (induction fcs arbitrary: acc created h)
  case Nil
  show ?case by simp
next
  case (Cons f fcs)
  have "\<forall>i \<in> set [0..<length (face_vertices f)]. face_vertices f ! i < length vertices0"
    using Cons.prems by (auto simp: indices_ok_def)
  moreover have "uvs \<noteq> None \<longrightarrow> face_uvs f \<noteq> None"
    using Cons.prems by (simp add: indices_ok_def)
  ultimately obtain vs where
    fl: "face_loop vertices0 normals uvs f [0..<length (face_vertices f)] acc = Inr (acc @ vs)"
    and len: "length vs = length (face_vertices f)"
    using face_loop_ok [of "[0..<length (face_vertices f)]" f vertices0 uvs normals acc] by auto
  show ?case
  proof (cases "length acc + length (face_vertices f) < 3")
    case True
    then show ?thesis
      by (simp add: fl len new_Polygon_def)
  next
    case False
    have ok: "indices_ok vertices0 uvs fcs"
      using Cons.prems by (simp add: indices_ok_def)
    have "\<not> (\<exists>e. faces_loop vertices0 normals uvs fcs (acc @ vs) cr h1 = Inl e)" for cr h1
      using Cons.IH [OF ok, of "acc @ vs" cr h1] False len by simp
    then show ?thesis
      using False
      by (auto simp: fl len new_Polygon_def split: prod.splits)
  qed
qed

lemma fromGeometry_raises_iff:
  assumes "indices_ok vertices0 uvs faces"
  shows "fromGeometry vertices0 faces normals uvs h = Inl TypeError \<longleftrightarrow>
         faces \<noteq> [] \<and> length (face_vertices (hd faces)) < 3"
proof -
  have "fromGeometry vertices0 faces normals uvs h = Inl TypeError \<longleftrightarrow>
        (\<exists>e. faces_loop vertices0 normals uvs faces [] [] h = Inl e)"
    by (cases "faces_loop vertices0 normals uvs faces [] [] h")
       (auto simp: fromGeometry_def intro: error.exhaust)
  then show ?thesis
    using faces_loop_raises [OF assms, of normals "[]" "[]" h] by simp
qed

lemma fromGeometry_returns:
  assumes "indices_ok vertices0 uvs faces" "\<forall>f \<in> set faces. 3 \<le> length (face_vertices f)"
  shows "\<exists>c h'. fromGeometry vertices0 faces normals uvs h = Inr (c, h')"
proof -
  have "\<not> (faces \<noteq> [] \<and> length (face_vertices (hd faces)) < 3)"
    using assms(2) by (cases faces) auto
  then have "fromGeometry vertices0 faces normals uvs h \<noteq> Inl TypeError"
    using fromGeometry_raises_iff [OF assms(1), of normals h] by simp
  then show ?thesis
    by (cases "fromGeometry vertices0 faces normals uvs h") (auto intro: error.exhaust)
qed

lemma no_TypeError:
  fixes x :: "error + csg \<times> heap"
  shows "x \<noteq> Inl TypeError \<longleftrightarrow> (\<exists>c h'. x = Inr (c, h'))"
  by (cases x) (auto intro: error.exhaust)

text \<open>
  Claim C8, amended. On operands whose polygons have at least 3 vertices each, whatever
  their geometry (non-planar, zero-area, self-intersecting), \<open>union\<close>, \<open>subtract\<close> and
  \<open>intersect\<close> raise no TypeError and \<open>inverse\<close> returns; a split ring of fewer than 3
  vertices is dropped silently. The constructor of \<open>Polygon\<close> raises a TypeError exactly
  on fewer than 3 vertices. \<open>fromGeometry\<close>, given indices in range (and \<open>uvs\<close> on every
  face when \<open>uvs\<close> is supplied), returns when every face has at least 3 vertex indices,
  and raises a TypeError when its first face has fewer than 3.
\<close>

theorem raises_only_below_three_vertices:
  "(well_formed h A \<and> well_formed h B \<longrightarrow>
      CSG_union A B h \<noteq> Inl TypeError \<and> CSG_subtract A B h \<noteq> Inl TypeError \<and>
      CSG_intersect A B h \<noteq> Inl TypeError \<and> (\<exists>c h'. CSG_inverse A h = Inr (c, h'))) \<and>
   (new_Polygon vs h = Inl TypeError \<longleftrightarrow> length vs < 3) \<and>
   (length ring < 3 \<longrightarrow> emit_ring a ring s = s) \<and>
   (indices_ok vertices0 uvs faces \<and> (\<forall>f \<in> set faces. 3 \<le> length (face_vertices f)) \<longrightarrow>
      (\<exists>c h'. fromGeometry vertices0 faces normals uvs h = Inr (c, h'))) \<and>
   (indices_ok vertices0 uvs faces \<and> faces \<noteq> [] \<and> length (face_vertices (hd faces)) < 3 \<longrightarrow>
      fromGeometry vertices0 faces normals uvs h = Inl TypeError)"
proof -
  have ops: "CSG_union A B h \<noteq> Inl TypeError \<and> CSG_subtract A B h \<noteq> Inl TypeError \<and>
      CSG_intersect A B h \<noteq> Inl TypeError \<and> (\<exists>c h'. CSG_inverse A h = Inr (c, h'))"
    if "well_formed h A" "well_formed h B"
    using CSG_union_total [OF that] CSG_subtract_total [OF that] CSG_intersect_total [OF that]
      CSG_inverse_total [OF that(1)]
    by (simp add: no_TypeError)
  have ctor: "new_Polygon vs h = Inl TypeError \<longleftrightarrow> length vs < 3"
    by (simp add: new_Polygon_def)
  have ring: "length ring < 3 \<longrightarrow> emit_ring a ring s = s"
    by (simp add: emit_ring_def)
  show ?thesis
    using ops ctor ring fromGeometry_returns [of vertices0 uvs faces normals h]
      fromGeometry_raises_iff [of vertices0 uvs faces normals h]
    by blast
qed

definition heapZ :: heap where
  "heapZ = snd (alloc_Polygon [vtx 0 0 0, vtx 0 0 0, vtx 0 0 0] heap0)"

theorem raises_only_below_three_vertices_witness:
  "CSG_union \<lparr>polygons = [0]\<rparr> \<lparr>polygons = [0]\<rparr> heapZ \<noteq> Inl TypeError \<and>
   CSG_subtract \<lparr>polygons = [0]\<rparr> \<lparr>polygons = [0]\<rparr> heapZ \<noteq> Inl TypeError \<and>
   CSG_intersect \<lparr>polygons = [0]\<rparr> \<lparr>polygons = [0]\<rparr> heapZ \<noteq> Inl TypeError \<and>
   (\<exists>c h'. CSG_inverse \<lparr>polygons = [0]\<rparr> heapZ = Inr (c, h')) \<and>
   new_Polygon [vtx 0 0 0, vtx 1 0 0] heapZ = Inl TypeError \<and>
   emit_ring 0 [vtx 0 0 0, vtx 1 0 0] (\<lambda>_. [], heapZ) = (\<lambda>_. [], heapZ) \<and>
   (\<exists>c h'. fromGeometry gridA [faceA, faceC] None None heapZ = Inr (c, h')) \<and>
   fromGeometry gridA [\<lparr>face_vertices = [0, 1], face_uvs = None\<rparr>, faceC] None None heapZ
     = Inl TypeError"
proof -
  have wf: "well_formed heapZ \<lparr>polygons = [0]\<rparr>"
    by (simp add: well_formed_def heapZ_def alloc_Polygon_def heap0_def Let_def)
  have ok: "indices_ok gridA None [faceA, faceC]"
    "indices_ok gridA None [\<lparr>face_vertices = [0, 1], face_uvs = None\<rparr>, faceC]"
    by (simp_all add: indices_ok_def faceA_def faceC_def gridA_def)
  show ?thesis
    using raises_only_below_three_vertices [where h = heapZ and A = "\<lparr>polygons = [0]\<rparr>"
        and B = "\<lparr>polygons = [0]\<rparr>" and vs = "[vtx 0 0 0, vtx 1 0 0]" and a = 0
        and ring = "[vtx 0 0 0, vtx 1 0 0]" and s = "(\<lambda>_. [], heapZ)"
        and ?vertices0.0 = gridA and uvs = None and faces = "[faceA, faceC]" and normals = None]
      raises_only_below_three_vertices [where h = heapZ
        and ?vertices0.0 = gridA and uvs = None and normals = None
        and faces = "[\<lparr>face_vertices = [0, 1], face_uvs = None\<rparr>, faceC]"]
      wf ok
    by (simp add: faceA_def faceC_def)
qed

subsection \<open>The plane object a node shares with its first polygon\<close>

lemma splitPolygon_triA_own:
  "splitPolygon 0 0 cf cb fr bk (arrs, heapABC) = (push cf 0 arrs, heapABC)"
proof -
  have "map (classify (Vec3 0 0 1) 0) triA = [COPLANAR, COPLANAR, COPLANAR]"
    by (simp add: triA_def classify_vtx)
  then show ?thesis
    by (simp add: splitPolygon_def heapABC_eq Let_def polygonType_def COPLANAR_def dot_def)
qed

lemma BSPNode_triA: "BSPNode [0] heapABC = (Node (Some 0) None None [0], heapABC)"
proof -
  have a: "plane (polys heapABC 0) = 0"
    by (simp add: heapABC_eq)
  have "build_split 0 [] [0] heapABC = (((\<lambda>_. [])(0 := [0])), heapABC)"
    by (simp add: build_split_def splitPolygon_triA_own push_def)
  then show ?thesis
    by (simp add: BSPNode_def empty_node_def a Let_def)
qed

lemma invert_triA:
  "invert (Node (Some 0) None None [0]) heapABC =
     (Node (Some 0) None None [0],
      heapABC\<lparr>polys := (polys heapABC)(0 := \<lparr>vertices = map negate_normal (rev triA), plane = 0\<rparr>)\<rparr>)"
  by (simp add: flip_all_def flip_def flip_plane_def Let_def heapABC_eq negate_plane_def mul_def
      fun_eq_iff)

text \<open>
  Claim C10 says that \<open>invert\<close> flips every polygon of the tree and negates the node
  planes. \<open>build\<close> stores in the node the plane object of \<open>polygons[0]\<close> itself, not a
  copy; \<open>invert\<close> negates that object once through the polygon and once through the
  node. On the tree built from one triangle the vertex ring is reversed and the vertex
  normals negated, while the plane of the polygon and of the node is what it was.
\<close>

theorem invert_keeps_shared_plane:
  "fst (invert (fst (BSPNode [0] heapABC)) (snd (BSPNode [0] heapABC)))
     = Node (Some 0) None None [0] \<and>
   polys (snd (invert (fst (BSPNode [0] heapABC)) (snd (BSPNode [0] heapABC)))) 0
     = \<lparr>vertices = map negate_normal (rev triA), plane = 0\<rparr> \<and>
   planes (snd (invert (fst (BSPNode [0] heapABC)) (snd (BSPNode [0] heapABC)))) 0
     = \<lparr>pnormal = Vec3 0 0 1, pw = 0\<rparr> \<and>
   planes heapABC 0 = \<lparr>pnormal = Vec3 0 0 1, pw = 0\<rparr>"
  unfolding BSPNode_triA fst_conv snd_conv invert_triA
  by (simp add: heapABC_eq)

subsection \<open>Inverse, twice\<close>

lemma map_Vertex_clone: "map Vertex_clone vs = vs"
  by (rule map_idI) (rule Vertex_clone_id)

lemma clone_all_result:
  assumes "clone_all ps h = Inr (rs, h')" "\<forall>r \<in> set ps. r < next_ref h"
  shows "rs = [next_ref h ..< next_ref h + length ps] \<and>
         next_ref h' = next_ref h + length ps \<and>
         (\<forall>i < length ps.
            polys h' (next_ref h + i)
              = \<lparr>vertices = vertices (polys h (ps ! i)), plane = next_ref h + i\<rparr> \<and>
            planes h' (next_ref h + i) = calculatePlane (vertices (polys h (ps ! i)))) \<and>
         heap_extends h h'"
  using assms
proof (induction ps arbitrary: h rs)
  case Nil
  then show ?case by (simp add: heap_extends_refl)
next
  case (Cons p ps)
  define h1 where "h1 = snd (alloc_Polygon (map Vertex_clone (vertices (polys h p))) h)"
  from Cons.prems(1) obtain rs1 where
    r: "clone_all ps h1 = Inr (rs1, h')" "rs = next_ref h # rs1"
    by (auto simp: Polygon_clone_def new_Polygon_def alloc_Polygon_def Let_def h1_def
        split: if_splits sum.splits)
  have ext1: "heap_extends h h1"
    unfolding h1_def by (rule heap_extends_alloc)
  have n1: "next_ref h1 = Suc (next_ref h)"
    by (simp add: h1_def alloc_Polygon_def Let_def)
  have new: "polys h1 (next_ref h) = \<lparr>vertices = vertices (polys h p), plane = next_ref h\<rparr>"
    "planes h1 (next_ref h) = calculatePlane (vertices (polys h p))"
    by (simp_all add: h1_def alloc_Polygon_def Let_def map_Vertex_clone)
  have old: "\<forall>r \<in> set ps. r < next_ref h1"
    using Cons.prems(2) n1 by auto
  from Cons.IH [OF r(1) old]
  have rs1: "rs1 = [next_ref h1 ..< next_ref h1 + length ps]"
    and nh': "next_ref h' = next_ref h1 + length ps"
    and objs: "\<And>i. i < length ps \<Longrightarrow>
            polys h' (next_ref h1 + i)
              = \<lparr>vertices = vertices (polys h1 (ps ! i)), plane = next_ref h1 + i\<rparr> \<and>
            planes h' (next_ref h1 + i) = calculatePlane (vertices (polys h1 (ps ! i)))"
    and ext2: "heap_extends h1 h'"
    by simp_all
  have same: "polys h1 (ps ! i) = polys h (ps ! i)" if "i < length ps" for i
    using ext1 Cons.prems(2) that by (auto simp: heap_extends_def)
  have keep: "polys h' (next_ref h) = polys h1 (next_ref h)"
    "planes h' (next_ref h) = planes h1 (next_ref h)"
    using ext2 n1 by (auto simp: heap_extends_def)
  have "polys h' (next_ref h + i)
              = \<lparr>vertices = vertices (polys h ((p # ps) ! i)), plane = next_ref h + i\<rparr> \<and>
        planes h' (next_ref h + i) = calculatePlane (vertices (polys h ((p # ps) ! i)))"
    if "i < length (p # ps)" for i
  proof (cases i)
    case 0
    then show ?thesis by (simp add: keep new)
  next
    case (Suc j)
    then show ?thesis
      using objs [of j] same [of j] that by (simp add: n1)
  qed
  moreover have "rs = [next_ref h ..< next_ref h + length (p # ps)]"
    by (auto simp: r(2) rs1 n1 upt_rec [of "next_ref h"] Suc_le_eq)
  moreover have "heap_extends h h'"
    using ext1 ext2 by (rule heap_extends_trans)
  ultimately show ?case
    using nh' n1 by simp
qed

lemma count_list_upt: "count_list [m..<n] x = (if m \<le> x \<and> x < n then 1 else 0)"
  by (induction n) auto

lemma flip_all_eq:
  "flip_all ps h = flipped (count_list ps) (count_list (map (\<lambda>r. plane (polys h r)) ps)) h"
  using flip_all_flipped [of ps "\<lambda>_. 0" "\<lambda>_. 0" h] by (simp add: flipped_zero)

lemma inverse_result:
  assumes "well_formed h A"
  shows "\<exists>h'. CSG_inverse A h
                = Inr (\<lparr>polygons = [next_ref h ..< next_ref h + length (polygons A)]\<rparr>, h') \<and>
          next_ref h' = next_ref h + length (polygons A) \<and>
          (\<forall>i < length (polygons A).
             polys h' (next_ref h + i)
               = \<lparr>vertices = map negate_normal (rev (vertices (polys h (polygons A ! i)))),
                  plane = next_ref h + i\<rparr> \<and>
             planes h' (next_ref h + i)
               = negate_plane (calculatePlane (vertices (polys h (polygons A ! i)))))"
proof -
  let ?n = "next_ref h" and ?k = "length (polygons A)"
  obtain rs h1 where c: "clone_all (polygons A) h = Inr (rs, h1)"
    using clone_all_total [of "polygons A" h] assms by (auto simp: well_formed_def)
  have al: "\<forall>r \<in> set (polygons A). r < next_ref h"
    using assms by (simp add: well_formed_def)
  note res = clone_all_result [OF c al]
  have rs: "rs = [?n ..< ?n + ?k]" and n1: "next_ref h1 = ?n + ?k"
    and objs: "\<And>i. i < ?k \<Longrightarrow>
            polys h1 (?n + i) = \<lparr>vertices = vertices (polys h (polygons A ! i)), plane = ?n + i\<rparr> \<and>
            planes h1 (?n + i) = calculatePlane (vertices (polys h (polygons A ! i)))"
    using res by simp_all
  have pl: "map (\<lambda>r. plane (polys h1 r)) rs = rs"
    unfolding rs
  proof (rule map_idI)
    fix r assume "r \<in> set [?n ..< ?n + ?k]"
    then obtain i where "r = ?n + i" "i < ?k"
      by (auto simp: le_iff_add)
    then show "plane (polys h1 r) = r"
      using objs [of i] by simp
  qed
  have inv: "CSG_inverse A h = Inr (\<lparr>polygons = rs\<rparr>, flip_all rs h1)"
    by (simp add: CSG_inverse_def CSG_clone_def c)
  have "polys (flip_all rs h1) (?n + i)
               = \<lparr>vertices = map negate_normal (rev (vertices (polys h (polygons A ! i)))),
                  plane = ?n + i\<rparr> \<and>
        planes (flip_all rs h1) (?n + i)
               = negate_plane (calculatePlane (vertices (polys h (polygons A ! i))))"
    if "i < ?k" for i
    using objs [OF that] that
    by (simp add: flip_all_eq pl [unfolded rs] flipped_def times_odd_def rs count_list_upt
        flip_ring_def)
  then show ?thesis
    by (simp add: inv rs flip_all_eq next_ref_flipped n1)
qed


lemma cross_reversed:
  "cross (sub b c) (sub a c) = mul (cross (sub b a) (sub c a)) (- 1)"
  by (simp add: cross_def sub_def mul_def algebra_simps)

lemma vlength_neg: "vlength (mul v (- 1)) = vlength v"
  by (simp add: vlength_def mul_def)

lemma normalize_neg: "normalize (mul v (- 1)) = mul (normalize v) (- 1)"
  by (simp add: normalize_def vlength_neg Let_def) (simp add: mul_def)

lemma dot_neg: "dot (mul v (- 1)) x = - dot v x"
  by (simp add: dot_def mul_def)

lemma dot_cross_self: "dot (cross (sub b a) (sub c a)) (sub c a) = 0"
  by (simp add: dot_def cross_def sub_def algebra_simps)

lemma dot_normalize:
  "dot (normalize v) x = (if vlength v \<noteq> 0 then dot v x / vlength v else dot v x)"
  by (simp add: normalize_def dot_def Let_def add_divide_distrib)

lemma dot_normal_first_last:
  "dot (normalize (cross (sub b a) (sub c a))) c = dot (normalize (cross (sub b a) (sub c a))) a"
proof -
  have "dot (normalize (cross (sub b a) (sub c a))) (sub c a) = 0"
    by (simp add: dot_normalize dot_cross_self)
  then show ?thesis
    by (simp add: dot_sub)
qed

text \<open>
  In the arithmetic of the real numbers the plane derived from a reversed triangle is
  the negation of the plane derived from the triangle. The code derives each of the two
  in doubles, from a cross product of its own.
\<close>

lemma triangle_plane_restored:
  assumes "length vs = 3"
  shows "negate_plane (calculatePlane (map negate_normal (rev vs))) = calculatePlane vs"
proof -
  obtain a b c where vs: "vs = [a, b, c]"
    using assms by (auto simp: length_Suc_conv eval_nat_numeral)
  have p: "position (negate_normal v) = position v" for v
    by (simp add: negate_normal_def)
  define X where "X = cross (sub (position b) (position a)) (sub (position c) (position a))"
  have 1: "calculatePlane vs = \<lparr>pnormal = normalize X, pw = dot (normalize X) (position a)\<rparr>"
    by (simp add: vs calculatePlane_def Let_def X_def)
  have "calculatePlane (map negate_normal (rev vs))
          = \<lparr>pnormal = normalize (cross (sub (position b) (position c))
                                          (sub (position a) (position c))),
             pw = dot (normalize (cross (sub (position b) (position c))
                                        (sub (position a) (position c)))) (position c)\<rparr>"
    by (simp add: vs calculatePlane_def Let_def p)
  also have "cross (sub (position b) (position c)) (sub (position a) (position c))
               = mul X (- 1)"
    unfolding X_def by (rule cross_reversed)
  finally have 2: "calculatePlane (map negate_normal (rev vs))
          = \<lparr>pnormal = mul (normalize X) (- 1),
             pw = - dot (normalize X) (position c)\<rparr>"
    by (simp add: normalize_neg dot_neg)
  have 3: "dot (normalize X) (position c) = dot (normalize X) (position a)"
    unfolding X_def by (rule dot_normal_first_last)
  show ?thesis
    by (simp add: 1 2 3 negate_plane_def mul_neg_neg)
qed

lemma inverse_inverse:
  assumes "well_formed h A"
  shows "\<exists>c1 h1 c2 h2.
           CSG_inverse A h = Inr (c1, h1) \<and> CSG_inverse c1 h1 = Inr (c2, h2) \<and>
           length (polygons c2) = length (polygons A) \<and>
           (\<forall>i < length (polygons A).
              vertices (polys h2 (polygons c2 ! i)) = vertices (polys h (polygons A ! i)) \<and>
              planes h2 (plane (polys h2 (polygons c2 ! i)))
                = negate_plane (calculatePlane
                    (map negate_normal (rev (vertices (polys h (polygons A ! i)))))))"
proof -
  let ?n = "next_ref h" and ?k = "length (polygons A)"
  obtain h1 where
    i1: "CSG_inverse A h = Inr (\<lparr>polygons = [?n ..< ?n + ?k]\<rparr>, h1)"
    and n1: "next_ref h1 = ?n + ?k"
    and o1: "\<And>i. i < ?k \<Longrightarrow>
             polys h1 (?n + i)
               = \<lparr>vertices = map negate_normal (rev (vertices (polys h (polygons A ! i)))),
                  plane = ?n + i\<rparr> \<and>
             planes h1 (?n + i)
               = negate_plane (calculatePlane (vertices (polys h (polygons A ! i))))"
    using inverse_result [OF assms] by blast
  let ?c1 = "\<lparr>polygons = [?n ..< ?n + ?k]\<rparr>"
  have wf1: "well_formed h1 ?c1"
    unfolding well_formed_def
  proof
    fix r assume "r \<in> set (polygons ?c1)"
    then obtain i where i: "r = ?n + i" "i < ?k"
      by (auto simp: le_iff_add)
    have "3 \<le> length (vertices (polys h (polygons A ! i)))"
      using assms i(2) by (simp add: well_formed_def)
    then show "r < next_ref h1 \<and> 3 \<le> length (vertices (polys h1 r))"
      using o1 [OF i(2)] i n1 by simp
  qed
  obtain h2 where
    i2: "CSG_inverse ?c1 h1 = Inr (\<lparr>polygons = [?n + ?k ..< ?n + ?k + ?k]\<rparr>, h2)"
    and o2: "\<And>i. i < ?k \<Longrightarrow>
             polys h2 (?n + ?k + i)
               = \<lparr>vertices = map negate_normal (rev (vertices (polys h1 (polygons ?c1 ! i)))),
                  plane = ?n + ?k + i\<rparr> \<and>
             planes h2 (?n + ?k + i)
               = negate_plane (calculatePlane (vertices (polys h1 (polygons ?c1 ! i))))"
    using inverse_result [OF wf1] by (auto simp: n1)
  have "vertices (polys h2 ([?n + ?k ..< ?n + ?k + ?k] ! i)) = vertices (polys h (polygons A ! i)) \<and>
        planes h2 (plane (polys h2 ([?n + ?k ..< ?n + ?k + ?k] ! i)))
          = negate_plane (calculatePlane
              (map negate_normal (rev (vertices (polys h (polygons A ! i))))))"
    if "i < ?k" for i
    using o2 [OF that] o1 [OF that] that
    by (simp add: rev_map negate_normal_twice comp_def)
  then show ?thesis
    using i1 i2 by auto
qed


text \<open>
  Claim C6, amended. \<open>flip\<close> and \<open>invert\<close> are self-inverse. \<open>inverse(inverse(A))\<close>
  restores the vertex ring of every polygon exactly (order, positions, normals, uvs).
  The plane of a polygon of the result is not the one \<open>A\<close>'s polygon carried: each
  \<open>clone\<close> derives a plane from the first three vertices of the ring as it then stands,
  so the result has the negation of the plane that \<open>calculatePlane\<close> derives from the
  reversed ring, that is from the last three vertices of \<open>A\<close>'s ring, taken backwards.
\<close>

theorem flip_invert_inverse_twice:
  "flip r (flip r h) = h \<and>
   (case invert t h of (t', h') \<Rightarrow> invert t' h') = (t, h) \<and>
   (well_formed h A \<longrightarrow>
      (\<exists>c1 h1 c2 h2.
         CSG_inverse A h = Inr (c1, h1) \<and> CSG_inverse c1 h1 = Inr (c2, h2) \<and>
         length (polygons c2) = length (polygons A) \<and>
         (\<forall>i < length (polygons A).
            vertices (polys h2 (polygons c2 ! i)) = vertices (polys h (polygons A ! i)) \<and>
            planes h2 (plane (polys h2 (polygons c2 ! i)))
              = negate_plane (calculatePlane
                  (map negate_normal (rev (vertices (polys h (polygons A ! i)))))))))"
  using inverse_inverse [of h A] by (simp add: flip_flip invert_invert)

lemma Vertex_clone_fun: "Vertex_clone = (\<lambda>v. v)"
  by (simp add: fun_eq_iff Vertex_clone_id)

definition inverse_twice :: "csg \<Rightarrow> heap \<Rightarrow> error + csg \<times> heap" where
  "inverse_twice A h =
     (case CSG_inverse A h of Inl e \<Rightarrow> Inl e | Inr (c1, h1) \<Rightarrow> CSG_inverse c1 h1)"

definition dart :: "vertex list" where
  "dart = [vtx 0 0 0, vtx 1 0 0, vtx 1 1 0, vtx 2 3 0]"

definition heapD :: heap where
  "heapD = snd (alloc_Polygon dart heap0)"

lemma calculatePlane_dart: "calculatePlane dart = \<lparr>pnormal = Vec3 0 0 1, pw = 0\<rparr>"
  by (simp add: calculatePlane_def dart_def vtx_def Vertex_def sub_def cross_def normalize_def
      vlength_def dot_def Let_def)

lemma calculatePlane_dart_rev:
  "calculatePlane (map negate_normal (rev dart)) = \<lparr>pnormal = Vec3 0 0 1, pw = 0\<rparr>"
  by (simp add: calculatePlane_def dart_def vtx_def Vertex_def sub_def cross_def normalize_def
      vlength_def dot_def Let_def negate_normal_def)

lemma heapD_eq:
  "heapD = \<lparr>polys = (\<lambda>_. \<lparr>vertices = [], plane = 0\<rparr>)(0 := \<lparr>vertices = dart, plane = 0\<rparr>),
            planes = (\<lambda>_. \<lparr>pnormal = Vec3 0 0 0, pw = 0\<rparr>)
                       (0 := \<lparr>pnormal = Vec3 0 0 1, pw = 0\<rparr>),
            next_ref = 1\<rparr>"
  by (simp add: heapD_def heap0_def alloc_Polygon_def Let_def calculatePlane_dart)

text \<open>
  Claim C6 as stated fails on a planar, simple, counter-clockwise quadrilateral with a
  reflex vertex: after \<open>inverse\<close> twice its plane normal is \<open>(0, 0, -1)\<close>, not the
  original \<open>(0, 0, 1)\<close>.
\<close>

theorem inverse_twice_changes_plane:
  "ring_view (inverse_twice \<lparr>polygons = [0]\<rparr> heapD)
     = Inr [(2, dart, \<lparr>pnormal = Vec3 0 0 (- 1), pw = 0\<rparr>)] \<and>
   planes heapD (plane (polys heapD 0)) = \<lparr>pnormal = Vec3 0 0 1, pw = 0\<rparr>"
proof -
  have n: "length dart = 4"
    by (simp add: dart_def)
  have twice: "map negate_normal (rev (map negate_normal (rev dart))) = dart"
    by (simp add: rev_map negate_normal_twice comp_def)
  have neg: "negate_plane \<lparr>pnormal = Vec3 0 0 1, pw = 0\<rparr> = \<lparr>pnormal = Vec3 0 0 (- 1), pw = 0\<rparr>"
    by (simp add: negate_plane_def mul_def)
  show ?thesis
    by (simp add: inverse_twice_def CSG_inverse_def CSG_clone_def Polygon_clone_def
        new_Polygon_def alloc_Polygon_def Let_def heapD_eq n map_Vertex_clone flip_all_def
        flip_def flip_plane_def calculatePlane_dart calculatePlane_dart_rev twice neg ring_view_def
        Vertex_clone_fun comp_def)
qed

theorem flip_invert_inverse_twice_witness:
  "flip 0 (flip 0 heapABC) = heapABC \<and>
   (case invert (Node (Some 0) None None [0]) heapABC of (t', h') \<Rightarrow> invert t' h')
     = (Node (Some 0) None None [0], heapABC) \<and>
   (\<exists>c1 h1 c2 h2.
      CSG_inverse \<lparr>polygons = [0, 1]\<rparr> heapABC = Inr (c1, h1) \<and>
      CSG_inverse c1 h1 = Inr (c2, h2) \<and> length (polygons c2) = 2 \<and>
      vertices (polys h2 (polygons c2 ! 0)) = triA \<and>
      planes h2 (plane (polys h2 (polygons c2 ! 0))) = \<lparr>pnormal = Vec3 0 0 1, pw = 0\<rparr> \<and>
      vertices (polys h2 (polygons c2 ! 1)) = triB \<and>
      planes h2 (plane (polys h2 (polygons c2 ! 1))) = \<lparr>pnormal = Vec3 1 0 0, pw = 0\<rparr>)"
proof -
  have wf: "well_formed heapABC \<lparr>polygons = [0, 1]\<rparr>"
    by (simp add: well_formed_def heapABC_eq triA_def triB_def)
  have v: "vertices (polys heapABC 0) = triA" "vertices (polys heapABC (Suc 0)) = triB"
    "length triA = 3" "length triB = 3"
    by (simp_all add: heapABC_eq triA_def triB_def)
  note inst = flip_invert_inverse_twice [where r = 0 and h = heapABC
      and t = "Node (Some 0) None None [0]" and A = "\<lparr>polygons = [0, 1]\<rparr>"]
  from inst wf obtain c1 h1 c2 h2 where
    r: "CSG_inverse \<lparr>polygons = [0, 1]\<rparr> heapABC = Inr (c1, h1)"
       "CSG_inverse c1 h1 = Inr (c2, h2)" "length (polygons c2) = 2"
    and o: "\<And>i. i < 2 \<Longrightarrow>
            vertices (polys h2 (polygons c2 ! i)) = vertices (polys heapABC ([0, 1] ! i)) \<and>
            planes h2 (plane (polys h2 (polygons c2 ! i)))
              = negate_plane (calculatePlane
                  (map negate_normal (rev (vertices (polys heapABC ([0, 1] ! i))))))"
    by auto
  have "vertices (polys h2 (polygons c2 ! 0)) = triA \<and>
      planes h2 (plane (polys h2 (polygons c2 ! 0))) = \<lparr>pnormal = Vec3 0 0 1, pw = 0\<rparr>"
    using o [of 0] by (simp add: v triangle_plane_restored calculatePlane_triA)
  moreover have "vertices (polys h2 (polygons c2 ! 1)) = triB \<and>
      planes h2 (plane (polys h2 (polygons c2 ! 1))) = \<lparr>pnormal = Vec3 1 0 0, pw = 0\<rparr>"
    using o [of 1] by (simp add: v triangle_plane_restored calculatePlane_triB)
  ultimately show ?thesis
    using inst r by auto
qed

subsection \<open>clipPolygons\<close>

text \<open>
  The partition of \<open>clipPolygons\<close>, as the specification words it: polygon by polygon,
  an all-coplanar polygon goes to the front list when the dot product of the node's
  plane normal and its own plane normal is positive and to the back list otherwise, a
  polygon with no vertex at the back goes to the front list, one with no vertex in
  front to the back list, and a spanning polygon gives its front ring to the front list
  and its back ring to the back list, each as a new polygon if it has 3 vertices or more.
\<close>

definition new_ring :: "vertex list \<Rightarrow> heap \<Rightarrow> ref list \<times> heap" where
  "new_ring ring h =
     (if 3 \<le> length ring then (let (r, h') = alloc_Polygon ring h in ([r], h')) else ([], h))"

definition split_one :: "ref \<Rightarrow> ref \<Rightarrow> heap \<Rightarrow> (ref list \<times> ref list) \<times> heap" where
  "split_one a p h =
     (let n = pnormal (planes h a); w = pw (planes h a);
          vs = vertices (polys h p);
          ts = map (classify n w) vs
      in if list_all (\<lambda>t. t = COPLANAR) ts
         then (if 0 < dot n (pnormal (planes h (plane (polys h p))))
               then (([p], []), h) else (([], [p]), h))
         else if BACK \<notin> set ts then (([p], []), h)
         else if FRONT \<notin> set ts then (([], [p]), h)
         else (let (fs, h1) = new_ring (front_ring n w vs) h;
                   (bs, h2) = new_ring (back_ring n w vs) h1
               in ((fs, bs), h2)))"

fun clip_partition :: "ref \<Rightarrow> ref list \<Rightarrow> heap \<Rightarrow> (ref list \<times> ref list) \<times> heap" where
  "clip_partition a [] h = (([], []), h)"
| "clip_partition a (p # ps) h =
     (let ((f1, b1), h1) = split_one a p h;
          ((f2, b2), h2) = clip_partition a ps h1
      in ((f1 @ f2, b1 @ b2), h2))"

lemma polygonType_classify:
  "polygonType (map (classify n w) vs) =
     (if FRONT \<in> set (map (classify n w) vs)
      then (if BACK \<in> set (map (classify n w) vs) then SPANNING else FRONT)
      else (if BACK \<in> set (map (classify n w) vs) then BACK else COPLANAR))"
  by (rule polygonType_char) (use classify_shape in auto)

lemma all_coplanar_iff:
  "list_all (\<lambda>t. t = COPLANAR) (map (classify n w) vs) \<longleftrightarrow>
     FRONT \<notin> set (map (classify n w) vs) \<and> BACK \<notin> set (map (classify n w) vs)"
proof
  assume "list_all (\<lambda>t. t = COPLANAR) (map (classify n w) vs)"
  then show "FRONT \<notin> set (map (classify n w) vs) \<and> BACK \<notin> set (map (classify n w) vs)"
    using type_distinct(1,2) by (auto simp: list_all_iff)
next
  assume a: "FRONT \<notin> set (map (classify n w) vs) \<and> BACK \<notin> set (map (classify n w) vs)"
  have "classify n w v = COPLANAR" if "v \<in> set vs" for v
    using classify_shape [of n w v] a that by force
  then show "list_all (\<lambda>t. t = COPLANAR) (map (classify n w) vs)"
    by (simp add: list_all_iff)
qed

lemma emit_ring_new_ring:
  "emit_ring k ring (arrs, h) =
     (arrs(k := arrs k @ fst (new_ring ring h)), snd (new_ring ring h))"
  by (simp add: emit_ring_def new_ring_def push_def split: prod.splits)

lemma splitPolygon_split_one:
  "splitPolygon a p 0 (Suc 0) 0 (Suc 0) (arrs, h) =
     (arrs(0 := arrs 0 @ fst (fst (split_one a p h)),
           Suc 0 := arrs (Suc 0) @ snd (fst (split_one a p h))),
      snd (split_one a p h))"
proof -
  let ?n = "pnormal (planes h a)" and ?w = "pw (planes h a)"
  let ?vs = "vertices (polys h p)"
  let ?ts = "map (classify ?n ?w) ?vs"
  have rings: "split_rings ?n ?w ?vs ?ts = (front_ring ?n ?w ?vs, back_ring ?n ?w ?vs)"
    by (rule split_rings_eq)
  consider (c) "FRONT \<notin> set ?ts" "BACK \<notin> set ?ts"
    | (f) "FRONT \<in> set ?ts" "BACK \<notin> set ?ts"
    | (b) "FRONT \<notin> set ?ts" "BACK \<in> set ?ts"
    | (s) "FRONT \<in> set ?ts" "BACK \<in> set ?ts"
    by blast
  then show ?thesis
  proof cases
    case c
    then have ty: "polygonType ?ts = COPLANAR" and all: "list_all (\<lambda>t. t = COPLANAR) ?ts"
      by (simp_all only: polygonType_classify all_coplanar_iff if_False simp_thms)
    show ?thesis
      using c
      by (simp add: splitPolygon_def split_one_def Let_def ty all push_def fun_eq_iff
          del: set_map)
  next
    case f
    then have ty: "polygonType ?ts = FRONT" and all: "\<not> list_all (\<lambda>t. t = COPLANAR) ?ts"
      by (simp_all only: polygonType_classify all_coplanar_iff if_False if_True simp_thms)
    show ?thesis
      using f
      by (simp add: splitPolygon_def split_one_def Let_def ty all push_def fun_eq_iff
          type_distinct del: set_map)
  next
    case b
    then have ty: "polygonType ?ts = BACK" and all: "\<not> list_all (\<lambda>t. t = COPLANAR) ?ts"
      by (simp_all only: polygonType_classify all_coplanar_iff if_False if_True simp_thms)
    show ?thesis
      using b
      by (simp add: splitPolygon_def split_one_def Let_def ty all push_def fun_eq_iff
          type_distinct del: set_map)
  next
    case s
    then have ty: "polygonType ?ts = SPANNING" and all: "\<not> list_all (\<lambda>t. t = COPLANAR) ?ts"
      by (simp_all only: polygonType_classify all_coplanar_iff if_False if_True simp_thms)
    show ?thesis
      using s
      by (simp add: splitPolygon_def split_one_def Let_def ty all rings fun_eq_iff
          type_distinct emit_ring_new_ring split: prod.splits del: set_map)
  qed
qed


lemma fold_split_clip:
  "fold (\<lambda>p. splitPolygon a p 0 (Suc 0) 0 (Suc 0)) ps (arrs, h) =
     (arrs(0 := arrs 0 @ fst (fst (clip_partition a ps h)),
           Suc 0 := arrs (Suc 0) @ snd (fst (clip_partition a ps h))),
      snd (clip_partition a ps h))"
proof (induction ps arbitrary: arrs h)
  case Nil
  show ?case by (simp add: fun_eq_iff)
next
  case (Cons p ps)
  show ?case
    by (simp add: splitPolygon_split_one Cons.IH fun_eq_iff split: prod.splits)
qed

lemma clip_split_partition:
  "clip_split a ps h =
     ((\<lambda>_. [])(0 := fst (fst (clip_partition a ps h)),
                Suc 0 := snd (fst (clip_partition a ps h))),
      snd (clip_partition a ps h))"
  by (simp add: clip_split_def fold_split_clip)

text \<open>
  Claim C7. \<open>clipPolygons\<close> on a node with no plane returns its argument unchanged.
  On a node with a plane it partitions the argument against that plane (an all-coplanar
  polygon to the front or the back list by the sign of the dot product of the two plane
  normals), clips the front list through the front child and the back list through the
  back child where the child exists, and returns the front result followed by the back
  result.
\<close>

theorem clipPolygons_contract:
  "clipPolygons (Node None fr bk ps) polys0 h = (polys0, h) \<and>
   clipPolygons (Node (Some a) fr bk ps) polys0 h =
     (let ((front0, back0), h1) = clip_partition a polys0 h;
          (front1, h2) = (case fr of None \<Rightarrow> (front0, h1)
                          | Some t \<Rightarrow> clipPolygons t front0 h1);
          (back1, h3) = (case bk of None \<Rightarrow> (back0, h2)
                         | Some t \<Rightarrow> clipPolygons t back0 h2)
      in (front1 @ back1, h3))"
proof -
  obtain f b h1 where p: "clip_partition a polys0 h = ((f, b), h1)"
    by (cases "clip_partition a polys0 h") auto
  have cs: "clip_split a polys0 h = ((\<lambda>_. [])(0 := f, Suc 0 := b), h1)"
    by (simp add: clip_split_partition p)
  have a0: "((\<lambda>_. [])(0 := f, Suc 0 := b)) 0 = f"
    and a1: "((\<lambda>_. [])(0 := f, Suc 0 := b)) 1 = b"
    by simp_all
  show ?thesis
    apply (simp add: cs p)
    unfolding a0 a1
    apply (rule refl)
    done
qed


definition cutB1 :: vertex where
  "cutB1 = Vertex (Vec3 0 (1 / 2) 0) (Some (Vec3 0 0 0)) (Some (0, 0))"

definition cutB2 :: vertex where
  "cutB2 = Vertex (Vec3 0 (2 / 3) 0) (Some (Vec3 0 0 0)) (Some (0, 0))"

lemma types_z0:
  "map (classify (Vec3 0 0 1) 0) triA = [COPLANAR, COPLANAR, COPLANAR]"
  "map (classify (Vec3 0 0 1) 0) triB = [FRONT, BACK, BACK]"
  "map (classify (Vec3 0 0 1) 0) triC = [BACK, BACK, BACK]"
  by (simp_all add: triA_def triB_def triC_def classify_vtx)

lemma front_ring_triB: "front_ring (Vec3 0 0 1) 0 triB = [vtx 0 0 1, cutB1, cutB2]"
  using types_z0(2)
  by (simp add: front_ring_def edge_front_def triB_def upt_rec [of 0] upt_rec [of 1]
      upt_rec [of 2] crossing_def type_distinct crossing_vertex_def crossing_parameter_def lerp3_def lerp_def
      vtx_def Vertex_def dot_def sub_def add_def mul_def Let_def cutB1_def cutB2_def)

lemma back_ring_triB:
  "back_ring (Vec3 0 0 1) 0 triB = [cutB1, vtx 0 1 (- 1), vtx 0 2 (- 2), cutB2]"
  using types_z0(2)
  by (simp add: back_ring_def edge_back_def triB_def upt_rec [of 0] upt_rec [of 1]
      upt_rec [of 2] crossing_def type_distinct crossing_vertex_def crossing_parameter_def lerp3_def lerp_def
      vtx_def Vertex_def dot_def sub_def add_def mul_def Let_def cutB1_def cutB2_def)

lemma split_one_z0_triB:
  assumes "planes h 0 = \<lparr>pnormal = Vec3 0 0 1, pw = 0\<rparr>" "vertices (polys h p) = triB"
  shows "split_one 0 p h =
           (([next_ref h], [Suc (next_ref h)]),
            snd (alloc_Polygon [cutB1, vtx 0 1 (- 1), vtx 0 2 (- 2), cutB2]
                   (snd (alloc_Polygon [vtx 0 0 1, cutB1, cutB2] h))))"
  by (simp add: split_one_def assms types_z0 type_distinct front_ring_triB back_ring_triB
      new_ring_def alloc_Polygon_def Let_def)

lemma split_one_z0_triC:
  assumes "planes h 0 = \<lparr>pnormal = Vec3 0 0 1, pw = 0\<rparr>" "vertices (polys h p) = triC"
  shows "split_one 0 p h = (([], [p]), h)"
  by (simp add: split_one_def assms types_z0 type_distinct Let_def)

lemma split_one_z0_triA:
  assumes "planes h 0 = \<lparr>pnormal = Vec3 0 0 1, pw = 0\<rparr>" "vertices (polys h p) = triA"
    "pnormal (planes h (plane (polys h p))) = Vec3 0 0 1"
  shows "split_one 0 p h = (([p], []), h)"
  by (simp add: split_one_def assms types_z0 type_distinct Let_def dot_def)

theorem clipPolygons_contract_witness:
  "fst (clipPolygons (Node None None None [0]) [1, 2, 0] heapABC) = [1, 2, 0] \<and>
   fst (clipPolygons (Node (Some 0) None None [0]) [1, 2, 0] heapABC) = [3, 0, 4, 2] \<and>
   fst (clipPolygons (Node (Some 0) (Some (Node None None None [])) None [0]) [1, 2, 0] heapABC)
     = [3, 0, 4, 2]"
proof -
  define h1 where "h1 = snd (alloc_Polygon [cutB1, vtx 0 1 (- 1), vtx 0 2 (- 2), cutB2]
                   (snd (alloc_Polygon [vtx 0 0 1, cutB1, cutB2] heapABC)))"
  have s1: "split_one 0 (Suc 0) heapABC = (([3], [4]), h1)"
    using split_one_z0_triB [of heapABC "Suc 0"] by (simp add: heapABC_eq h1_def)
  have h1: "planes h1 0 = \<lparr>pnormal = Vec3 0 0 1, pw = 0\<rparr>"
    "vertices (polys h1 2) = triC" "vertices (polys h1 0) = triA"
    "pnormal (planes h1 (plane (polys h1 0))) = Vec3 0 0 1"
    by (simp_all add: h1_def alloc_Polygon_def Let_def heapABC_eq)
  have s2: "split_one 0 2 h1 = (([], [2]), h1)"
    using h1 by (intro split_one_z0_triC)
  have s3: "split_one 0 0 h1 = (([0], []), h1)"
    using h1 by (intro split_one_z0_triA)
  have p: "clip_partition 0 [1, 2, 0] heapABC = (([3, 0], [4, 2]), h1)"
    by (simp add: s1 s2 s3)
  have e0: "clipPolygons (Node None None None [0]) [1, 2, 0] heapABC = ([1, 2, 0], heapABC)"
    by (rule clipPolygons_contract [THEN conjunct1])
  have e00: "clipPolygons (Node None None None []) [3, 0] h1 = ([3, 0], h1)"
    by (rule clipPolygons_contract [THEN conjunct1])
  have e1: "clipPolygons (Node (Some 0) None None [0]) [1, 2, 0] heapABC = ([3, 0, 4, 2], h1)"
    by (simp only: clipPolygons_contract [of None None "[0]" "[1, 2, 0]" heapABC 0,
          THEN conjunct2] p Let_def prod.case option.case append.simps)
  have e2: "clipPolygons (Node (Some 0) (Some (Node None None None [])) None [0]) [1, 2, 0]
              heapABC = ([3, 0, 4, 2], h1)"
    by (simp only: clipPolygons_contract [of "Some (Node None None None [])" None "[0]"
          "[1, 2, 0]" heapABC 0, THEN conjunct2] p Let_def prod.case option.case e00
          append.simps)
  show ?thesis
    by (simp only: e0 e1 e2 fst_conv simp_thms)
qed

subsection \<open>Intersection with an empty operand\<close>

lemma clip_split_Nil: "clip_split a [] h = (\<lambda>_. [], h)"
  by (simp add: clip_split_def)

lemma clipPolygons_Nil: "clipPolygons t [] h = ([], h)"
proof (induction t arbitrary: h)
  case (Node pl fr bk ps)
  show ?case
  proof (cases pl)
    case None
    then show ?thesis by simp
  next
    case (Some a)
    have f: "(case fr of None \<Rightarrow> ([], h) | Some t \<Rightarrow> clipPolygons t [] h) = ([], h)"
      using Node.IH(1) by (cases fr) simp_all
    have b: "(case bk of None \<Rightarrow> ([], h) | Some t \<Rightarrow> clipPolygons t [] h) = ([], h)"
      using Node.IH(2) by (cases bk) simp_all
    show ?thesis
      by (simp add: Some clip_split_Nil f b)
  qed
qed

lemma clipTo_leaf: "clipTo t (Node None fr0 bk0 ps0) h = (t, h)"
proof (induction t arbitrary: h)
  case (Node pl fr bk ps)
  have f: "(case fr of None \<Rightarrow> (None, h)
            | Some t \<Rightarrow> (let (t', h') = clipTo t (Node None fr0 bk0 ps0) h in (Some t', h')))
           = (fr, h)"
    using Node.IH(1) by (cases fr) simp_all
  have b: "(case bk of None \<Rightarrow> (None, h)
            | Some t \<Rightarrow> (let (t', h') = clipTo t (Node None fr0 bk0 ps0) h in (Some t', h')))
           = (bk, h)"
    using Node.IH(2) by (cases bk) simp_all
  show ?case
    by (simp add: f b)
qed

lemma clipTo_empty_node: "clipTo empty_node t h = (empty_node, h)"
  by (simp add: empty_node_def clipPolygons_Nil)

lemma invert_empty_node: "invert empty_node h = (empty_node, h)"
  by (simp add: empty_node_def flip_all_def)

lemma build_Nil: "build t [] h = (t, h)"
  by (cases t) simp

lemma BSPNode_Nil: "BSPNode [] h = (Node None None None [], h)"
  by (simp add: BSPNode_def build_Nil empty_node_def)

lemma intersect_empty:
  assumes "polygons E = []"
  shows "CSG_intersect A E h =
           (case CSG_clone A h of
              Inl e \<Rightarrow> Inl e
            | Inr (c, h1) \<Rightarrow>
                (let (a, h2) = BSPNode (polygons c) h1
                 in Inr (fromPolygons (allPolygons a), h2)))"
proof (cases "CSG_clone A h")
  case (Inl e)
  then show ?thesis
    by (simp add: CSG_intersect_def two_trees_def)
next
  case (Inr r)
  obtain c h1 where r: "r = (c, h1)" by (cases r)
  obtain a h2 where a: "BSPNode (polygons c) h1 = (a, h2)"
    by (cases "BSPNode (polygons c) h1")
  have e: "CSG_clone E h2 = Inr (\<lparr>polygons = []\<rparr>, h2)"
    by (simp add: CSG_clone_def assms)
  have tt: "two_trees A E h = Inr ((a, empty_node), h2)"
    by (simp add: two_trees_def Inr r a e BSPNode_Nil empty_node_def)
  obtain a1 h3 where i1: "invert a h2 = (a1, h3)"
    by (cases "invert a h2")
  have inv2: "invert a1 h3 = (a, h2)"
    using invert_invert [of a h2] by (simp add: i1)
  show ?thesis
    by (simp add: CSG_intersect_def tt i1 clipTo_empty_node invert_empty_node
        clipTo_leaf [of _ None None "[]", folded empty_node_def] build_Nil inv2 Inr r a
        allPolygons.simps [of None None None "[]", folded empty_node_def])
qed


text \<open>One of the two child blocks of \<open>build\<close>, for the list \<open>lst\<close> that was split off.\<close>

definition build_child :: "bsp option \<Rightarrow> ref list \<Rightarrow> nat \<Rightarrow> heap \<Rightarrow> bsp option \<times> heap" where
  "build_child c lst n h =
     (if lst \<noteq> []
      then if length lst \<noteq> n
           then case build (case c of None \<Rightarrow> empty_node | Some t \<Rightarrow> t) lst h of
                  (t', h') \<Rightarrow> (Some t', h')
           else (Some (case c of None \<Rightarrow> empty_node | Some t \<Rightarrow> t), h)
      else (c, h))"

lemma build_step:
  assumes "polys0 \<noteq> []" "length ps \<le> 1000"
    and "a = (case pl of None \<Rightarrow> plane (polys h (polys0 ! 0)) | Some a \<Rightarrow> a)"
    and "build_split a ps polys0 h = (arrs, h1)"
    and "build_child fr (arrs 1) (length polys0) h1 = (fr', h2)"
    and "build_child bk (arrs 2) (length polys0) h2 = (bk', h3)"
  shows "build (Node pl fr bk ps) polys0 h = (Node (Some a) fr' bk' (arrs 0), h3)"
  apply (subst build.simps)
  unfolding Let_def assms(3) [symmetric] assms(4) prod.case
    build_child_def [symmetric] assms(5) assms(6)
  using assms(1,2) by simp


lemma build_step_arrays:
  assumes "polys0 \<noteq> []" "length ps \<le> 1000"
    and "a = (case pl of None \<Rightarrow> plane (polys h (polys0 ! 0)) | Some a \<Rightarrow> a)"
    and "build_split a ps polys0 h = (arrs, h1)"
    and "arrs 0 = own" "arrs 1 = fs" "arrs 2 = bs"
    and "build_child fr fs (length polys0) h1 = (fr', h2)"
    and "build_child bk bs (length polys0) h2 = (bk', h3)"
  shows "build (Node pl fr bk ps) polys0 h = (Node (Some a) fr' bk' own, h3)"
  using build_step [OF assms(1-4), of fr fr' h2 bk bk' h3] assms(5-9) by simp

lemma classify_Vertex:
  "classify (Vec3 a b c) w (Vertex (Vec3 x y z) nn cc) =
     (if a * x + b * y + c * z - w < - (5902958103587057 / 590295810358705651712) then BACK
      else if a * x + b * y + c * z - w > 5902958103587057 / 590295810358705651712 then FRONT else COPLANAR)"
  by (simp add: classify_def Vertex_def dot_def EPSILON_def Let_def)

lemma splitPolygon_COPLANAR:
  assumes "polygonType (map (classify (pnormal (planes h a)) (pw (planes h a)))
              (vertices (polys h p))) = COPLANAR"
  shows "splitPolygon a p cf cb fr bk (arrs, h) =
           (push (if 0 < dot (pnormal (planes h a)) (pnormal (planes h (plane (polys h p))))
                  then cf else cb) p arrs, h)"
  using assms by (simp add: splitPolygon_def Let_def)

lemma splitPolygon_FRONT:
  assumes "polygonType (map (classify (pnormal (planes h a)) (pw (planes h a)))
              (vertices (polys h p))) = FRONT"
  shows "splitPolygon a p cf cb fr bk (arrs, h) = (push fr p arrs, h)"
  using assms by (simp add: splitPolygon_def Let_def type_distinct)

lemma splitPolygon_BACK:
  assumes "polygonType (map (classify (pnormal (planes h a)) (pw (planes h a)))
              (vertices (polys h p))) = BACK"
  shows "splitPolygon a p cf cb fr bk (arrs, h) = (push bk p arrs, h)"
  using assms by (simp add: splitPolygon_def Let_def type_distinct)

lemma splitPolygon_SPANNING:
  assumes "polygonType (map (classify (pnormal (planes h a)) (pw (planes h a)))
              (vertices (polys h p))) = SPANNING"
  shows "splitPolygon a p cf cb fr bk (arrs, h) =
           emit_ring bk (back_ring (pnormal (planes h a)) (pw (planes h a)) (vertices (polys h p)))
             (emit_ring fr
                (front_ring (pnormal (planes h a)) (pw (planes h a)) (vertices (polys h p)))
                (arrs, h))"
  using assms by (simp add: splitPolygon_def Let_def type_distinct split_rings_eq)

lemma polygonType_eval:
  "polygonType [COPLANAR, COPLANAR, COPLANAR] = COPLANAR"
  "polygonType [FRONT, BACK, BACK] = SPANNING"
  "polygonType [BACK, BACK, BACK] = BACK"
  "polygonType [FRONT, FRONT, FRONT] = FRONT"
  "polygonType [COPLANAR, FRONT, COPLANAR] = FRONT"
  "polygonType [COPLANAR, BACK, COPLANAR] = BACK"
  "polygonType [COPLANAR, COPLANAR, FRONT] = FRONT"
  "polygonType [FRONT, COPLANAR, COPLANAR] = FRONT"
  "polygonType [BACK, BACK, FRONT] = SPANNING"
  "polygonType [COPLANAR, COPLANAR, COPLANAR, COPLANAR] = COPLANAR"
  "polygonType [COPLANAR, BACK, BACK, COPLANAR] = BACK"
  "polygonType [BACK, BACK, COPLANAR, COPLANAR] = BACK"
  "polygonType [COPLANAR, COPLANAR, BACK, BACK] = BACK"
  by (simp_all add: polygonType_Cons polygonType_Nil type_or COPLANAR_def [symmetric])

lemma sqrt_36: "sqrt (1 / 36) = 1 / 6"
  by (rule real_sqrt_unique) (simp_all add: power2_eq_square)

lemma sqrt_4: "sqrt (1 / 4) = 1 / 2"
  by (rule real_sqrt_unique) (simp_all add: power2_eq_square)

definition ringF :: "vertex list" where
  "ringF = [vtx 0 0 1, cutB1, cutB2]"

definition ringK :: "vertex list" where
  "ringK = [cutB1, vtx 0 1 (- 1), vtx 0 2 (- 2), cutB2]"

lemma calculatePlane_ringF: "calculatePlane ringF = \<lparr>pnormal = Vec3 1 0 0, pw = 0\<rparr>"
  by (simp add: calculatePlane_def ringF_def cutB1_def cutB2_def vtx_def Vertex_def sub_def
      cross_def normalize_def vlength_def dot_def Let_def sqrt_36)

lemma calculatePlane_ringK: "calculatePlane ringK = \<lparr>pnormal = Vec3 1 0 0, pw = 0\<rparr>"
  by (simp add: calculatePlane_def ringK_def cutB1_def cutB2_def vtx_def Vertex_def sub_def
      cross_def normalize_def vlength_def dot_def Let_def sqrt_4)


lemma splitPolygon_eval:
  assumes "planes h a = \<lparr>pnormal = n, pw = w\<rparr>" "vertices (polys h p) = vs"
    "map (classify n w) vs = ts"
  shows "splitPolygon a p cf cb fr bk (arrs, h) =
     (if polygonType ts = COPLANAR
      then (push (if 0 < dot n (pnormal (planes h (plane (polys h p)))) then cf else cb) p arrs, h)
      else if polygonType ts = FRONT then (push fr p arrs, h)
      else if polygonType ts = BACK then (push bk p arrs, h)
      else emit_ring bk (back_ring n w vs) (emit_ring fr (front_ring n w vs) (arrs, h)))"
proof -
  have "polygonType ts = COPLANAR \<or> polygonType ts = FRONT \<or> polygonType ts = BACK \<or>
        polygonType ts = SPANNING"
    using polygonType_classify [of n w vs] by (simp add: assms(3))
  then show ?thesis
    using assms split_rings_eq [of n w vs]
    by (auto simp: splitPolygon_def Let_def type_distinct)
qed

definition rings_of :: "error + csg \<times> heap \<Rightarrow> error + vertex list list" where
  "rings_of res =
     (case res of
        Inl e \<Rightarrow> Inl e
      | Inr (c, h) \<Rightarrow> Inr (map (\<lambda>r. vertices (polys h r)) (polygons c)))"

lemma lengths: "length triA = 3" "length triB = 3" "length triC = 3" "length ringF = 3"
  "length ringK = 4"
  by (simp_all add: triA_def triB_def triC_def ringF_def ringK_def)

lemma types_x0:
  "map (classify (Vec3 1 0 0) 0) ringF = [COPLANAR, COPLANAR, COPLANAR]"
  "map (classify (Vec3 1 0 0) 0) ringK = [COPLANAR, COPLANAR, COPLANAR, COPLANAR]"
  by (simp_all add: ringF_def ringK_def cutB1_def cutB2_def vtx_def classify_Vertex)

lemma rings_triB:
  "front_ring (Vec3 0 0 1) 0 triB = ringF" "back_ring (Vec3 0 0 1) 0 triB = ringK"
  by (simp_all add: front_ring_triB back_ring_triB ringF_def ringK_def)

text \<open>
  Claim C9 says that \<open>intersect(A, E)\<close> with \<open>E\<close> empty returns \<open>A\<close>'s polygon set. On
  two triangles, the second crossing the plane of the first, it returns three polygons:
  \<open>build\<close> has split the second triangle.
\<close>

theorem intersect_empty_splits:
  "rings_of (CSG_intersect \<lparr>polygons = [0, 1]\<rparr> \<lparr>polygons = []\<rparr> heapABC)
     = Inr [triA, ringF, ringK] \<and>
   map (\<lambda>r. vertices (polys heapABC r)) [0, 1] = [triA, triB]"
proof -
  define H where "H = snd (alloc_Polygon triB (snd (alloc_Polygon triA heapABC)))"
  define H1 where "H1 = snd (alloc_Polygon ringK (snd (alloc_Polygon ringF H)))"
  have cl: "CSG_clone \<lparr>polygons = [0, 1]\<rparr> heapABC = Inr (\<lparr>polygons = [3, 4]\<rparr>, H)"
    by (simp add: CSG_clone_def Polygon_clone_def new_Polygon_def heapABC_eq lengths
        map_Vertex_clone alloc_Polygon_def Let_def H_def)
  have H: "planes H 3 = \<lparr>pnormal = Vec3 0 0 1, pw = 0\<rparr>" "vertices (polys H 3) = triA"
    "plane (polys H 3) = 3" "vertices (polys H 4) = triB" "next_ref H = 5"
    by (simp_all add: H_def alloc_Polygon_def Let_def heapABC_eq calculatePlane_triA)
  have H1: "planes H1 5 = \<lparr>pnormal = Vec3 1 0 0, pw = 0\<rparr>" "vertices (polys H1 5) = ringF"
    "plane (polys H1 5) = 5"
    "planes H1 6 = \<lparr>pnormal = Vec3 1 0 0, pw = 0\<rparr>" "vertices (polys H1 6) = ringK"
    "plane (polys H1 6) = 6" "vertices (polys H1 3) = triA"
    by (simp_all add: H1_def alloc_Polygon_def Let_def H calculatePlane_ringF
        calculatePlane_ringK)
  have s3: "splitPolygon 3 3 0 0 (Suc 0) 2 (arrs, H) = (push 0 3 arrs, H)" for arrs
    by (simp add: splitPolygon_eval [OF H(1) H(2) types_z0(1)] polygonType_eval H dot_def)
  have s4: "splitPolygon 3 4 0 0 (Suc 0) 2 (arrs, H) = (push 2 6 (push (Suc 0) 5 arrs), H1)"
    for arrs
    by (simp add: splitPolygon_eval [OF H(1) H(4) types_z0(2)] polygonType_eval type_distinct
        rings_triB emit_ring_def lengths alloc_Polygon_def Let_def H H1_def)
  have bs: "build_split 3 [] [3, 4] H = ((\<lambda>_. [])(0 := [3], 1 := [5], 2 := [6]), H1)"
    by (simp add: build_split_def s3 s4 push_def fun_eq_iff)
  have s5: "splitPolygon 5 5 0 0 (Suc 0) 2 (arrs, H1) = (push 0 5 arrs, H1)" for arrs
    by (simp add: splitPolygon_eval [OF H1(1) H1(2) types_x0(1)] polygonType_eval H1 dot_def)
  have s6: "splitPolygon 6 6 0 0 (Suc 0) 2 (arrs, H1) = (push 0 6 arrs, H1)" for arrs
    by (simp add: splitPolygon_eval [OF H1(4) H1(5) types_x0(2)] polygonType_eval H1 dot_def)
  have b5: "build empty_node [5] H1 = (Node (Some 5) None None [5], H1)"
    unfolding empty_node_def
    by (rule build_step_arrays [where arrs = "(\<lambda>_. [])(0 := [5])" and fs = "[]" and bs = "[]"])
       (simp_all add: H1 build_split_def s5 push_def build_child_def)
  have b6: "build empty_node [6] H1 = (Node (Some 6) None None [6], H1)"
    unfolding empty_node_def
    by (rule build_step_arrays [where arrs = "(\<lambda>_. [])(0 := [6])" and fs = "[]" and bs = "[]"])
       (simp_all add: H1 build_split_def s6 push_def build_child_def)
  have b: "BSPNode [3, 4] H =
      (Node (Some 3) (Some (Node (Some 5) None None [5])) (Some (Node (Some 6) None None [6])) [3],
       H1)"
    unfolding BSPNode_def empty_node_def
  proof (rule build_step_arrays [where fs = "[5]" and bs = "[6]" and ?h1.0 = H1
        and ?h2.0 = H1 and ?h3.0 = H1 and arrs = "(\<lambda>_. [])(0 := [3], 1 := [5], 2 := [6])"])
    show "build_split 3 [] [3, 4] H = ((\<lambda>_. [])(0 := [3], 1 := [5], 2 := [6]), H1)"
      by (rule bs)
    show "build_child None [5] (length [3, 4 :: nat]) H1
            = (Some (Node (Some 5) None None [5]), H1)"
      by (simp add: build_child_def b5)
    show "build_child None [6] (length [3, 4 :: nat]) H1
            = (Some (Node (Some 6) None None [6]), H1)"
      by (simp add: build_child_def b6)
  qed (simp_all add: H)
  have "CSG_intersect \<lparr>polygons = [0, 1]\<rparr> \<lparr>polygons = []\<rparr> heapABC =
          (case CSG_clone \<lparr>polygons = [0, 1]\<rparr> heapABC of
              Inl e \<Rightarrow> Inl e
            | Inr (c, h1) \<Rightarrow>
                (let (a, h2) = BSPNode (polygons c) h1
                 in Inr (fromPolygons (allPolygons a), h2)))"
    by (rule intersect_empty) simp
  also have "\<dots> = Inr (\<lparr>polygons = [3, 5, 6]\<rparr>, H1)"
    unfolding cl by (simp add: b fromPolygons_def)
  finally have "rings_of (CSG_intersect \<lparr>polygons = [0, 1]\<rparr> \<lparr>polygons = []\<rparr> heapABC)
                  = Inr [triA, ringF, ringK]"
    by (simp add: rings_of_def H1)
  then show ?thesis
    by (simp add: heapABC_eq)
qed


text \<open>
  Claim C9, amended. With \<open>E\<close> empty, \<open>intersect(A, E)\<close> returns the flattened polygon
  list of the tree built from the clone of \<open>A\<close>: the empty operand clips nothing away.
  The tree built from an empty list is a node with no plane, and clipping through such
  a node is the identity.
\<close>

theorem intersect_with_empty:
  "(polygons E = [] \<longrightarrow>
      CSG_intersect A E h =
        (case CSG_clone A h of
           Inl e \<Rightarrow> Inl e
         | Inr (c, h1) \<Rightarrow>
             (let (a, h2) = BSPNode (polygons c) h1
              in Inr (fromPolygons (allPolygons a), h2)))) \<and>
   BSPNode [] h = (Node None None None [], h) \<and>
   clipPolygons (Node None fr bk ps) polys0 h = (polys0, h)"
  using intersect_empty [of E A h] by (simp add: BSPNode_Nil)

theorem intersect_with_empty_witness:
  "rings_of (CSG_intersect \<lparr>polygons = [0]\<rparr> \<lparr>polygons = []\<rparr> heapABC) = Inr [triA]"
proof -
  define H where "H = snd (alloc_Polygon triA heapABC)"
  have cl: "CSG_clone \<lparr>polygons = [0]\<rparr> heapABC = Inr (\<lparr>polygons = [3]\<rparr>, H)"
    by (simp add: CSG_clone_def Polygon_clone_def new_Polygon_def heapABC_eq lengths
        map_Vertex_clone alloc_Polygon_def Let_def H_def)
  have H: "planes H 3 = \<lparr>pnormal = Vec3 0 0 1, pw = 0\<rparr>" "vertices (polys H 3) = triA"
    "plane (polys H 3) = 3"
    by (simp_all add: H_def alloc_Polygon_def Let_def heapABC_eq calculatePlane_triA)
  have s3: "splitPolygon 3 3 0 0 (Suc 0) 2 (arrs, H) = (push 0 3 arrs, H)" for arrs
    by (simp add: splitPolygon_eval [OF H(1) H(2) types_z0(1)] polygonType_eval H dot_def)
  have b: "BSPNode [3] H = (Node (Some 3) None None [3], H)"
    unfolding BSPNode_def empty_node_def
    by (rule build_step_arrays [where arrs = "(\<lambda>_. [])(0 := [3])" and fs = "[]" and bs = "[]"])
       (simp_all add: H build_split_def s3 push_def build_child_def)
  have "CSG_intersect \<lparr>polygons = [0]\<rparr> \<lparr>polygons = []\<rparr> heapABC =
          (case CSG_clone \<lparr>polygons = [0]\<rparr> heapABC of
              Inl e \<Rightarrow> Inl e
            | Inr (c, h1) \<Rightarrow>
                (let (a, h2) = BSPNode (polygons c) h1
                 in Inr (fromPolygons (allPolygons a), h2)))"
    using intersect_with_empty [of "\<lparr>polygons = []\<rparr>" "\<lparr>polygons = [0]\<rparr>" heapABC] by simp
  also have "\<dots> = Inr (\<lparr>polygons = [3]\<rparr>, H)"
    unfolding cl by (simp add: b fromPolygons_def)
  finally show ?thesis
    by (simp add: rings_of_def H)
qed

subsection \<open>The early return of build\<close>


text \<open>
  A stack of parallel unit triangles, the one at address \<open>r\<close> at height \<open>r\<close>, each with
  the plane \<open>calculatePlane\<close> derives for it.
\<close>

definition level :: "real \<Rightarrow> vertex list" where
  "level k = [vtx 0 0 k, vtx 1 0 k, vtx 0 1 k]"

definition stack_heap :: "nat \<Rightarrow> heap" where
  "stack_heap n =
     \<lparr>polys = (\<lambda>r. \<lparr>vertices = level (real r), plane = r\<rparr>),
      planes = (\<lambda>r. \<lparr>pnormal = Vec3 0 0 1, pw = real r\<rparr>),
      next_ref = n\<rparr>"


lemma calculatePlane_level: "calculatePlane (level k) = \<lparr>pnormal = Vec3 0 0 1, pw = k\<rparr>"
  by (simp add: calculatePlane_def level_def vtx_def Vertex_def sub_def cross_def normalize_def
      vlength_def dot_def Let_def)

lemma stack_heap_alloc:
  "alloc_Polygon (level (real n)) (stack_heap n) = (n, stack_heap (Suc n))"
  by (simp add: alloc_Polygon_def stack_heap_def Let_def calculatePlane_level fun_upd_idem)













subsection \<open>The order of the steps of intersect\<close>

text \<open>
  The calls that \<open>union\<close>, \<open>subtract\<close> and \<open>intersect\<close> make on their two trees
  \<open>a\<close> and \<open>b\<close>, and a sequence of them run on the trees built from the clones of the
  two operands, ending with \<open>CSG.fromPolygons(a.allPolygons())\<close>.
\<close>

datatype step = Invert_a | Invert_b | Clip_a_to_b | Clip_b_to_a | Merge_b_into_a

fun perform :: "step \<Rightarrow> (bsp \<times> bsp) \<times> heap \<Rightarrow> (bsp \<times> bsp) \<times> heap" where
  "perform Invert_a ((a, b), h) = (let (a', h') = invert a h in ((a', b), h'))"
| "perform Invert_b ((a, b), h) = (let (b', h') = invert b h in ((a, b'), h'))"
| "perform Clip_a_to_b ((a, b), h) = (let (a', h') = clipTo a b h in ((a', b), h'))"
| "perform Clip_b_to_a ((a, b), h) = (let (b', h') = clipTo b a h in ((a, b'), h'))"
| "perform Merge_b_into_a ((a, b), h) =
     (let (a', h') = build a (allPolygons b) h in ((a', b), h'))"

definition sequence :: "step list \<Rightarrow> csg \<Rightarrow> csg \<Rightarrow> heap \<Rightarrow> error + csg \<times> heap" where
  "sequence steps this other h =
     (case two_trees this other h of
        Inl e \<Rightarrow> Inl e
      | Inr s \<Rightarrow>
          (let ((a, b), h') = fold perform steps s
           in Inr (fromPolygons (allPolygons a), h')))"

text \<open>
  The sequence the specification gives for \<open>intersect\<close>: invert both \<open>a\<close> and \<open>b\<close>;
  clip \<open>b\<close> to \<open>a\<close>, \<open>a\<close> to \<open>b\<close>; invert \<open>b\<close>, clip \<open>b\<close> to \<open>a\<close>, invert \<open>b\<close>
  back; merge \<open>b\<close> into \<open>a\<close>; invert \<open>a\<close> back.
\<close>

definition intersect_as_specified :: "csg \<Rightarrow> csg \<Rightarrow> heap \<Rightarrow> error + csg \<times> heap" where
  "intersect_as_specified =
     sequence [Invert_a, Invert_b, Clip_b_to_a, Clip_a_to_b, Invert_b, Clip_b_to_a, Invert_b,
               Merge_b_into_a, Invert_a]"

lemma CSG_intersect_steps:
  "CSG_intersect this other h =
     sequence [Invert_a, Clip_b_to_a, Invert_b, Clip_a_to_b, Clip_b_to_a, Merge_b_into_a,
               Invert_a] this other h"
proof (cases "two_trees this other h")
  case (Inl e)
  then show ?thesis by (simp add: CSG_intersect_def sequence_def)
next
  case (Inr s)
  obtain a0 b0 h0 where s: "s = ((a0, b0), h0)" by (cases s) auto
  obtain a1 h1 where 1: "invert a0 h0 = (a1, h1)" by (cases "invert a0 h0")
  obtain b1 h2 where 2: "clipTo b0 a1 h1 = (b1, h2)" by (cases "clipTo b0 a1 h1")
  obtain b2 h3 where 3: "invert b1 h2 = (b2, h3)" by (cases "invert b1 h2")
  obtain a2 h4 where 4: "clipTo a1 b2 h3 = (a2, h4)" by (cases "clipTo a1 b2 h3")
  obtain b3 h5 where 5: "clipTo b2 a2 h4 = (b3, h5)" by (cases "clipTo b2 a2 h4")
  obtain a3 h6 where 6: "build a2 (allPolygons b3) h5 = (a3, h6)"
    by (cases "build a2 (allPolygons b3) h5")
  obtain a4 h7 where 7: "invert a3 h6 = (a4, h7)" by (cases "invert a3 h6")
  show ?thesis
    by (simp add: CSG_intersect_def sequence_def Inr s 1 2 3 4 5 6 7)
qed


text \<open>
  Claim C3, amended. \<open>intersect\<close> performs this sequence on the trees \<open>a\<close> and \<open>b\<close>
  built from the clones of its operands: invert \<open>a\<close>; clip \<open>b\<close> to \<open>a\<close>; invert \<open>b\<close>;
  clip \<open>a\<close> to \<open>b\<close>; clip \<open>b\<close> to \<open>a\<close>; build \<open>b\<close>'s polygons into \<open>a\<close>; invert \<open>a\<close>;
  and returns \<open>a\<close>'s flattened polygon list. \<open>b\<close> is inverted once, after its first
  clip, and never inverted back.
\<close>

theorem intersect_sequence:
  "CSG_intersect this other h =
     sequence [Invert_a, Clip_b_to_a, Invert_b, Clip_a_to_b, Clip_b_to_a, Merge_b_into_a,
               Invert_a] this other h"
  by (rule CSG_intersect_steps)

subsection \<open>Two crossing triangles, step by step\<close>

lemma flipped_obs:
  "vertices (polys (flipped cv cn h) r) =
     (if odd (cv r) then map negate_normal (rev (vertices (polys h r)))
      else vertices (polys h r))"
  "plane (polys (flipped cv cn h) r) = plane (polys h r)"
  "planes (flipped cv cn h) a = (if odd (cn a) then negate_plane (planes h a) else planes h a)"
  "next_ref (flipped cv cn h) = next_ref h"
  by (simp_all add: flipped_def times_odd_def flip_ring_def)

lemma alloc_obs:
  "vertices (polys (snd (alloc_Polygon ring h)) r) =
     (if r = next_ref h then ring else vertices (polys h r))"
  "plane (polys (snd (alloc_Polygon ring h)) r) =
     (if r = next_ref h then r else plane (polys h r))"
  "planes (snd (alloc_Polygon ring h)) r =
     (if r = next_ref h then calculatePlane ring else planes h r)"
  "next_ref (snd (alloc_Polygon ring h)) = Suc (next_ref h)"
  by (simp_all add: alloc_Polygon_def Let_def)

lemma alloc_fst: "fst (alloc_Polygon ring h) = next_ref h"
  by (simp add: alloc_Polygon_def Let_def)

lemma new_ring_eval:
  "3 \<le> length ring \<Longrightarrow> new_ring ring h = ([next_ref h], snd (alloc_Polygon ring h))"
  by (simp add: new_ring_def alloc_Polygon_def Let_def)

lemma clipPolygons_single:
  "clipPolygons (Node (Some a) None None qs) ps h =
     (case clip_partition a ps h of ((f, b), h1) \<Rightarrow> (f @ b, h1))"
proof -
  obtain f b h1 where p: "clip_partition a ps h = ((f, b), h1)"
    by (cases "clip_partition a ps h") auto
  have cs: "clip_split a ps h = ((\<lambda>_. [])(0 := f, Suc 0 := b), h1)"
    by (simp add: clip_split_partition p)
  show ?thesis
    by (simp add: cs p)
qed

lemma clipTo_single:
  "clipTo (Node pl None None ps) (Node (Some a) None None qs) h =
     (case clip_partition a ps h of ((f, b), h1) \<Rightarrow> (Node pl None None (f @ b), h1))"
proof -
  obtain f b h1 where p: "clip_partition a ps h = ((f, b), h1)"
    by (cases "clip_partition a ps h") auto
  have "clipPolygons (Node (Some a) None None qs) ps h = (f @ b, h1)"
    by (simp only: clipPolygons_single p prod.case)
  then show ?thesis
    by (simp add: p)
qed

lemma split_one_eval:
  assumes "planes h a = \<lparr>pnormal = n, pw = w\<rparr>" "vertices (polys h p) = vs"
    "map (classify n w) vs = ts"
  shows "split_one a p h =
     (if list_all (\<lambda>t. t = COPLANAR) ts
      then (if 0 < dot n (pnormal (planes h (plane (polys h p))))
            then (([p], []), h) else (([], [p]), h))
      else if BACK \<notin> set ts then (([p], []), h)
      else if FRONT \<notin> set ts then (([], [p]), h)
      else (let (fs, h1) = new_ring (front_ring n w vs) h;
                (bs, h2) = new_ring (back_ring n w vs) h1
            in ((fs, bs), h2)))"
  by (simp add: split_one_def assms Let_def)

lemma negate_normal_vtx: "negate_normal (vtx x y z) = vtx x y z"
  by (simp add: negate_normal_def vtx_def Vertex_def mul_def)

lemma cut_vtx: "cutB1 = vtx 0 (1 / 2) 0" "cutB2 = vtx 0 (2 / 3) 0"
  by (simp_all add: cutB1_def cutB2_def vtx_def Vertex_def)

definition revA :: "vertex list" where
  "revA = [vtx 0 1 0, vtx 1 0 0, vtx 0 0 0]"

definition revB :: "vertex list" where
  "revB = [vtx 0 2 (- 2), vtx 0 1 (- 1), vtx 0 0 1]"

definition revF :: "vertex list" where
  "revF = [cutB2, cutB1, vtx 0 0 1]"

definition revK :: "vertex list" where
  "revK = [cutB2, vtx 0 2 (- 2), vtx 0 1 (- 1), cutB1]"

definition ringG :: "vertex list" where
  "ringG = [cutB1, vtx 0 0 1, cutB2]"

definition ringL :: "vertex list" where
  "ringL = [vtx 0 2 (- 2), vtx 0 1 (- 1), cutB1, cutB2]"

definition revG :: "vertex list" where
  "revG = [cutB2, vtx 0 0 1, cutB1]"

definition revL :: "vertex list" where
  "revL = [cutB2, cutB1, vtx 0 1 (- 1), vtx 0 2 (- 2)]"

lemma flip_rings:
  "map negate_normal (rev triA) = revA" "map negate_normal (rev revA) = triA"
  "map negate_normal (rev triB) = revB" "map negate_normal (rev revB) = triB"
  "map negate_normal (rev ringF) = revF" "map negate_normal (rev revF) = ringF"
  "map negate_normal (rev ringK) = revK" "map negate_normal (rev revK) = ringK"
  "map negate_normal (rev ringG) = revG" "map negate_normal (rev revG) = ringG"
  "map negate_normal (rev ringL) = revL" "map negate_normal (rev revL) = ringL"
  by (simp_all add: triA_def triB_def ringF_def ringK_def revA_def revB_def revF_def revK_def
      ringG_def ringL_def revG_def revL_def cut_vtx negate_normal_vtx)

lemma negate_plane_eval:
  "negate_plane \<lparr>pnormal = Vec3 x y z, pw = w\<rparr> = \<lparr>pnormal = Vec3 (- x) (- y) (- z), pw = - w\<rparr>"
  by (simp add: negate_plane_def mul_def)

lemma more_lengths: "length revA = 3" "length revB = 3" "length revF = 3" "length revK = 4"
  "length ringG = 3" "length ringL = 4" "length revG = 3" "length revL = 4"
  by (simp_all add: revA_def revB_def revF_def revK_def ringG_def ringL_def revG_def revL_def)

lemma types_more:
  "map (classify (Vec3 1 0 0) 0) triB = [COPLANAR, COPLANAR, COPLANAR]"
  "map (classify (Vec3 0 0 1) 0) revB = [BACK, BACK, FRONT]"
  "map (classify (Vec3 (- 1) 0 0) 0) revA = [COPLANAR, BACK, COPLANAR]"
  "map (classify (Vec3 1 0 0) 0) revA = [COPLANAR, FRONT, COPLANAR]"
  "map (classify (Vec3 0 0 1) 0) revF = [COPLANAR, COPLANAR, FRONT]"
  "map (classify (Vec3 0 0 1) 0) revK = [COPLANAR, BACK, BACK, COPLANAR]"
  "map (classify (Vec3 0 0 1) 0) revG = [COPLANAR, FRONT, COPLANAR]"
  "map (classify (Vec3 0 0 1) 0) revL = [COPLANAR, COPLANAR, BACK, BACK]"
  "map (classify (Vec3 0 0 1) 0) ringG = [COPLANAR, FRONT, COPLANAR]"
  "map (classify (Vec3 0 0 1) 0) ringL = [BACK, BACK, COPLANAR, COPLANAR]"
  "map (classify (Vec3 (- 1) 0 0) 0) revF = [COPLANAR, COPLANAR, COPLANAR]"
  "map (classify (Vec3 (- 1) 0 0) 0) revK = [COPLANAR, COPLANAR, COPLANAR, COPLANAR]"
  "map (classify (Vec3 (- 1) 0 0) 0) ringG = [COPLANAR, COPLANAR, COPLANAR]"
  "map (classify (Vec3 (- 1) 0 0) 0) ringL = [COPLANAR, COPLANAR, COPLANAR, COPLANAR]"
  by (simp_all add: triA_def triB_def ringF_def ringK_def revA_def revB_def revF_def revK_def
      ringG_def ringL_def revG_def revL_def cut_vtx classify_vtx)

lemma calculatePlane_ringG: "calculatePlane ringG = \<lparr>pnormal = Vec3 (- 1) 0 0, pw = 0\<rparr>"
  by (simp add: calculatePlane_def ringG_def cutB1_def cutB2_def vtx_def Vertex_def sub_def
      cross_def normalize_def vlength_def dot_def Let_def sqrt_36)

lemma calculatePlane_ringL: "calculatePlane ringL = \<lparr>pnormal = Vec3 (- 1) 0 0, pw = 0\<rparr>"
  by (simp add: calculatePlane_def ringL_def cutB1_def cutB2_def vtx_def Vertex_def sub_def
      cross_def normalize_def vlength_def dot_def Let_def sqrt_4)

lemma rings_revB:
  "front_ring (Vec3 0 0 1) 0 revB = ringG" "back_ring (Vec3 0 0 1) 0 revB = ringL"
  using types_more(2)
  by (simp_all add: front_ring_def back_ring_def edge_front_def edge_back_def revB_def
      upt_rec [of 0] upt_rec [of 1]
      upt_rec [of 2] crossing_def type_distinct crossing_vertex_def crossing_parameter_def lerp3_def lerp_def
      vtx_def Vertex_def dot_def sub_def add_def mul_def Let_def cutB1_def cutB2_def
      ringG_def ringL_def)


lemma build_own:
  assumes "plane (polys h p) = a" "planes h a = \<lparr>pnormal = n, pw = w\<rparr>"
    "vertices (polys h p) = vs" "map (classify n w) vs = ts" "polygonType ts = COPLANAR"
    "0 < dot n n"
  shows "build empty_node [p] h = (Node (Some a) None None [p], h)"
proof -
  have s: "splitPolygon a p 0 0 (Suc 0) 2 (arrs, h) = (push 0 p arrs, h)" for arrs
    by (simp add: splitPolygon_eval [OF assms(2,3,4)] assms)
  show ?thesis
    unfolding empty_node_def
    by (rule build_step_arrays [where arrs = "(\<lambda>_. [])(0 := [p])" and fs = "[]" and bs = "[]"])
       (simp_all add: assms build_split_def s push_def build_child_def)
qed

lemma build_front_back:
  assumes "planes h a = \<lparr>pnormal = n, pw = w\<rparr>"
    and "vertices (polys h p) = vp" "map (classify n w) vp = tp" "polygonType tp = FRONT"
    and "vertices (polys h q) = vq" "map (classify n w) vq = tq" "polygonType tq = BACK"
    and "build empty_node [p] h = (np, h)" "build empty_node [q] h = (nq, h)"
    and "length ps \<le> 1000"
  shows "build (Node (Some a) None None ps) [p, q] h = (Node (Some a) (Some np) (Some nq) ps, h)"
proof -
  have sp: "splitPolygon a p 0 0 (Suc 0) 2 (arrs, h) = (push (Suc 0) p arrs, h)" for arrs
    by (simp add: splitPolygon_eval [OF assms(1,2,3)] assms(4) type_distinct)
  have sq: "splitPolygon a q 0 0 (Suc 0) 2 (arrs, h) = (push 2 q arrs, h)" for arrs
    by (simp add: splitPolygon_eval [OF assms(1,5,6)] assms(7) type_distinct)
  show ?thesis
  proof (rule build_step_arrays [where fs = "[p]" and bs = "[q]" and ?h1.0 = h
        and ?h2.0 = h and ?h3.0 = h and arrs = "(\<lambda>_. [])(0 := ps, 1 := [p], 2 := [q])"])
    show "build_split a ps [p, q] h = ((\<lambda>_. [])(0 := ps, 1 := [p], 2 := [q]), h)"
      by (simp add: build_split_def sp sq push_def fun_eq_iff)
    show "build_child None [p] (length [p, q]) h = (Some np, h)"
      by (simp add: build_child_def assms(8))
    show "build_child None [q] (length [p, q]) h = (Some nq, h)"
      by (simp add: build_child_def assms(9))
  qed (simp_all add: assms(10))
qed

definition cloned :: heap where
  "cloned = snd (alloc_Polygon triB (snd (alloc_Polygon triA heapABC)))"

lemma cloned_obs:
  "vertices (polys cloned 3) = triA" "plane (polys cloned 3) = 3"
  "planes cloned 3 = \<lparr>pnormal = Vec3 0 0 1, pw = 0\<rparr>"
  "vertices (polys cloned 4) = triB" "plane (polys cloned 4) = 4"
  "planes cloned 4 = \<lparr>pnormal = Vec3 1 0 0, pw = 0\<rparr>"
  "next_ref cloned = 5"
  by (simp_all add: cloned_def alloc_obs heapABC_eq calculatePlane_triA calculatePlane_triB)

lemma two_trees_AB:
  "two_trees \<lparr>polygons = [0]\<rparr> \<lparr>polygons = [1]\<rparr> heapABC =
     Inr ((Node (Some 3) None None [3], Node (Some 4) None None [4]), cloned)"
proof -
  define Ha where "Ha = snd (alloc_Polygon triA heapABC)"
  have Ha: "vertices (polys Ha 3) = triA" "plane (polys Ha 3) = 3"
    "planes Ha 3 = \<lparr>pnormal = Vec3 0 0 1, pw = 0\<rparr>"
    "vertices (polys Ha (Suc 0)) = triB" "next_ref Ha = 4"
    by (simp_all add: Ha_def alloc_obs heapABC_eq calculatePlane_triA)
  have c1: "CSG_clone \<lparr>polygons = [0]\<rparr> heapABC = Inr (\<lparr>polygons = [3]\<rparr>, Ha)"
    by (simp add: CSG_clone_def Polygon_clone_def new_Polygon_def heapABC_eq lengths
        map_Vertex_clone alloc_Polygon_def Let_def Ha_def)
  have b1: "BSPNode [3] Ha = (Node (Some 3) None None [3], Ha)"
    unfolding BSPNode_def
    by (rule build_own [OF Ha(2) Ha(3) Ha(1) types_z0(1)])
       (simp_all add: polygonType_eval dot_def)
  have "CSG_clone \<lparr>polygons = [Suc 0]\<rparr> Ha =
          Inr (\<lparr>polygons = [fst (alloc_Polygon triB Ha)]\<rparr>, snd (alloc_Polygon triB Ha))"
    by (simp add: CSG_clone_def Polygon_clone_def new_Polygon_def Ha lengths map_Vertex_clone
        split: prod.splits)
  then have c2: "CSG_clone \<lparr>polygons = [Suc 0]\<rparr> Ha = Inr (\<lparr>polygons = [4]\<rparr>, cloned)"
    unfolding alloc_fst Ha(5) cloned_def Ha_def [symmetric] .
  have b2: "BSPNode [4] cloned = (Node (Some 4) None None [4], cloned)"
    unfolding BSPNode_def
    by (rule build_own [OF cloned_obs(5) cloned_obs(6) cloned_obs(4) types_more(1)])
       (simp_all add: polygonType_eval dot_def)
  show ?thesis
    by (simp add: two_trees_def c1 b1 c2 b2)
qed


lemma invert_single:
  "invert (Node (Some a) None None ps) h =
     (Node (Some a) None None ps,
      flipped (count_list ps) (count_list (a # map (\<lambda>r. plane (polys h r)) ps)) h)"
  by (simp add: invert_eq tree_flips_def)

lemma code_run:
  "rings_of (sequence [Invert_a, Clip_b_to_a, Invert_b, Clip_a_to_b, Clip_b_to_a,
                       Merge_b_into_a, Invert_a] \<lparr>polygons = [0]\<rparr> \<lparr>polygons = [1]\<rparr> heapABC)
     = Inr [triA, ringK, ringF]"
proof -
  let ?a = "Node (Some 3) None None [3]"
  let ?c = "Node (Some 4) None None [4]"
  let ?b = "Node (Some 4) None None [5, 6]"
  let ?n5 = "Node (Some 5) None None [5]"
  let ?n6 = "Node (Some 6) None None [6]"
  define H1 where "H1 = flipped (count_list [3]) (count_list [3, 3]) cloned"
  have i1: "invert ?a cloned = (?a, H1)"
    unfolding invert_single by (simp add: cloned_obs H1_def)
  have H1: "vertices (polys H1 3) = revA" "plane (polys H1 3) = 3"
    "planes H1 3 = \<lparr>pnormal = Vec3 0 0 1, pw = 0\<rparr>"
    "vertices (polys H1 4) = triB" "plane (polys H1 4) = 4"
    "planes H1 4 = \<lparr>pnormal = Vec3 1 0 0, pw = 0\<rparr>"
    "next_ref H1 = 5"
    by (simp_all add: H1_def flipped_obs cloned_obs flip_rings)
  define H2 where "H2 = snd (alloc_Polygon ringK (snd (alloc_Polygon ringF H1)))"
  have s2: "split_one 3 4 H1 = (([5], [6]), H2)"
    by (simp add: split_one_eval [OF H1(3) H1(4) types_z0(2)] type_distinct rings_triB
        new_ring_eval lengths alloc_obs H1 H2_def)
  have c2: "clipTo ?c ?a H1 = (?b, H2)"
    by (simp only: clipTo_single clip_partition.simps s2 Let_def prod.case append.simps)
  have H2: "vertices (polys H2 3) = revA" "plane (polys H2 3) = 3"
    "planes H2 3 = \<lparr>pnormal = Vec3 0 0 1, pw = 0\<rparr>"
    "vertices (polys H2 4) = triB" "plane (polys H2 4) = 4"
    "planes H2 4 = \<lparr>pnormal = Vec3 1 0 0, pw = 0\<rparr>"
    "vertices (polys H2 5) = ringF" "plane (polys H2 5) = 5"
    "planes H2 5 = \<lparr>pnormal = Vec3 1 0 0, pw = 0\<rparr>"
    "vertices (polys H2 6) = ringK" "plane (polys H2 6) = 6"
    "planes H2 6 = \<lparr>pnormal = Vec3 1 0 0, pw = 0\<rparr>"
    "next_ref H2 = 7"
    by (simp_all add: H2_def alloc_obs H1 calculatePlane_ringF calculatePlane_ringK)
  define H3 where "H3 = flipped (count_list [5, 6]) (count_list [4, 5, 6]) H2"
  have i3: "invert ?b H2 = (?b, H3)"
    unfolding invert_single by (simp add: H2 H3_def)
  have H3: "vertices (polys H3 3) = revA" "plane (polys H3 3) = 3"
    "planes H3 3 = \<lparr>pnormal = Vec3 0 0 1, pw = 0\<rparr>"
    "planes H3 4 = \<lparr>pnormal = Vec3 (- 1) 0 0, pw = 0\<rparr>"
    "vertices (polys H3 5) = revF" "plane (polys H3 5) = 5"
    "planes H3 5 = \<lparr>pnormal = Vec3 (- 1) 0 0, pw = 0\<rparr>"
    "vertices (polys H3 6) = revK" "plane (polys H3 6) = 6"
    "planes H3 6 = \<lparr>pnormal = Vec3 (- 1) 0 0, pw = 0\<rparr>"
    by (simp_all add: H3_def flipped_obs H2 flip_rings negate_plane_eval)
  have s4: "split_one 4 3 H3 = (([], [3]), H3)"
    by (simp add: split_one_eval [OF H3(4) H3(1) types_more(3)] type_distinct)
  have c4: "clipTo ?a ?b H3 = (?a, H3)"
    by (simp only: clipTo_single clip_partition.simps s4 Let_def prod.case append.simps)
  have s5: "split_one 3 5 H3 = (([5], []), H3)"
    by (simp add: split_one_eval [OF H3(3) H3(5) types_more(5)] type_distinct)
  have s6: "split_one 3 6 H3 = (([], [6]), H3)"
    by (simp add: split_one_eval [OF H3(3) H3(8) types_more(6)] type_distinct)
  have c5: "clipTo ?b ?a H3 = (?b, H3)"
    by (simp only: clipTo_single clip_partition.simps s5 s6 Let_def prod.case append.simps)
  have b5: "build empty_node [5] H3 = (?n5, H3)"
    by (rule build_own [OF H3(6) H3(7) H3(5) types_more(11)])
       (simp_all add: polygonType_eval dot_def)
  have b6: "build empty_node [6] H3 = (?n6, H3)"
    by (rule build_own [OF H3(9) H3(10) H3(8) types_more(12)])
       (simp_all add: polygonType_eval dot_def)
  have m: "build ?a [5, 6] H3 = (Node (Some 3) (Some ?n5) (Some ?n6) [3], H3)"
    by (rule build_front_back [OF H3(3) H3(5) types_more(5) _ H3(8) types_more(6) _ b5 b6])
       (simp_all add: polygonType_eval)
  define H4 where "H4 = flipped (count_list [3, 5, 6]) (count_list [3, 5, 6, 3, 5, 6]) H3"
  have i7: "invert (Node (Some 3) (Some ?n5) (Some ?n6) [3]) H3 =
              (Node (Some 3) (Some ?n6) (Some ?n5) [3], H4)"
    unfolding invert_eq by (simp add: tree_flips_def H3 H4_def)
  have H4: "vertices (polys H4 3) = triA" "vertices (polys H4 5) = ringF"
    "vertices (polys H4 6) = ringK"
    by (simp_all add: H4_def flipped_obs H3 flip_rings)
  have run: "fold perform [Invert_a, Clip_b_to_a, Invert_b, Clip_a_to_b, Clip_b_to_a,
                      Merge_b_into_a, Invert_a] ((?a, ?c), cloned)
          = ((Node (Some 3) (Some ?n6) (Some ?n5) [3], ?b), H4)"
    by (simp only: fold_simps perform.simps allPolygons.simps option.case append.simps
        Let_def prod.case i1 c2 i3 c4 c5 m i7)
  show ?thesis
    unfolding sequence_def two_trees_AB sum.case run Let_def prod.case
    by (simp add: fromPolygons_def rings_of_def H4)
qed


lemma specified_run:
  "rings_of (intersect_as_specified \<lparr>polygons = [0]\<rparr> \<lparr>polygons = [1]\<rparr> heapABC)
     = Inr [triA, revL, revG]"
proof -
  let ?a = "Node (Some 3) None None [3]"
  let ?c = "Node (Some 4) None None [4]"
  let ?b = "Node (Some 4) None None [5, 6]"
  let ?n5 = "Node (Some 5) None None [5]"
  let ?n6 = "Node (Some 6) None None [6]"
  define H1 where "H1 = flipped (count_list [3]) (count_list [3, 3]) cloned"
  have i1: "invert ?a cloned = (?a, H1)"
    unfolding invert_single by (simp add: cloned_obs H1_def)
  have H1: "vertices (polys H1 3) = revA" "plane (polys H1 3) = 3"
    "planes H1 3 = \<lparr>pnormal = Vec3 0 0 1, pw = 0\<rparr>"
    "vertices (polys H1 4) = triB" "plane (polys H1 4) = 4"
    "planes H1 4 = \<lparr>pnormal = Vec3 1 0 0, pw = 0\<rparr>"
    "next_ref H1 = 5"
    by (simp_all add: H1_def flipped_obs cloned_obs flip_rings)
  define H2 where "H2 = flipped (count_list [4]) (count_list [4, 4]) H1"
  have i2: "invert ?c H1 = (?c, H2)"
    unfolding invert_single by (simp add: H1 H2_def)
  have H2: "vertices (polys H2 3) = revA" "plane (polys H2 3) = 3"
    "planes H2 3 = \<lparr>pnormal = Vec3 0 0 1, pw = 0\<rparr>"
    "vertices (polys H2 4) = revB" "plane (polys H2 4) = 4"
    "planes H2 4 = \<lparr>pnormal = Vec3 1 0 0, pw = 0\<rparr>"
    "next_ref H2 = 5"
    by (simp_all add: H2_def flipped_obs H1 flip_rings)
  define H3 where "H3 = snd (alloc_Polygon ringL (snd (alloc_Polygon ringG H2)))"
  have s3: "split_one 3 4 H2 = (([5], [6]), H3)"
    by (simp add: split_one_eval [OF H2(3) H2(4) types_more(2)] type_distinct rings_revB
        new_ring_eval more_lengths alloc_obs H2 H3_def)
  have c3: "clipTo ?c ?a H2 = (?b, H3)"
    by (simp only: clipTo_single clip_partition.simps s3 Let_def prod.case append.simps)
  have H3: "vertices (polys H3 3) = revA" "plane (polys H3 3) = 3"
    "planes H3 3 = \<lparr>pnormal = Vec3 0 0 1, pw = 0\<rparr>"
    "plane (polys H3 4) = 4"
    "planes H3 4 = \<lparr>pnormal = Vec3 1 0 0, pw = 0\<rparr>"
    "vertices (polys H3 5) = ringG" "plane (polys H3 5) = 5"
    "planes H3 5 = \<lparr>pnormal = Vec3 (- 1) 0 0, pw = 0\<rparr>"
    "vertices (polys H3 6) = ringL" "plane (polys H3 6) = 6"
    "planes H3 6 = \<lparr>pnormal = Vec3 (- 1) 0 0, pw = 0\<rparr>"
    by (simp_all add: H3_def alloc_obs H2 calculatePlane_ringG calculatePlane_ringL)
  have s4: "split_one 4 3 H3 = (([3], []), H3)"
    by (simp add: split_one_eval [OF H3(5) H3(1) types_more(4)] type_distinct)
  have c4: "clipTo ?a ?b H3 = (?a, H3)"
    by (simp only: clipTo_single clip_partition.simps s4 Let_def prod.case append.simps)
  define H5 where "H5 = flipped (count_list [5, 6]) (count_list [4, 5, 6]) H3"
  have i5: "invert ?b H3 = (?b, H5)"
    unfolding invert_single by (simp add: H3 H5_def)
  have H5: "vertices (polys H5 3) = revA" "plane (polys H5 3) = 3"
    "planes H5 3 = \<lparr>pnormal = Vec3 0 0 1, pw = 0\<rparr>"
    "plane (polys H5 4) = 4"
    "planes H5 4 = \<lparr>pnormal = Vec3 (- 1) 0 0, pw = 0\<rparr>"
    "vertices (polys H5 5) = revG" "plane (polys H5 5) = 5"
    "planes H5 5 = \<lparr>pnormal = Vec3 1 0 0, pw = 0\<rparr>"
    "vertices (polys H5 6) = revL" "plane (polys H5 6) = 6"
    "planes H5 6 = \<lparr>pnormal = Vec3 1 0 0, pw = 0\<rparr>"
    by (simp_all add: H5_def flipped_obs H3 flip_rings negate_plane_eval)
  have s5: "split_one 3 5 H5 = (([5], []), H5)"
    by (simp add: split_one_eval [OF H5(3) H5(6) types_more(7)] type_distinct)
  have s6: "split_one 3 6 H5 = (([], [6]), H5)"
    by (simp add: split_one_eval [OF H5(3) H5(9) types_more(8)] type_distinct)
  have c6: "clipTo ?b ?a H5 = (?b, H5)"
    by (simp only: clipTo_single clip_partition.simps s5 s6 Let_def prod.case append.simps)
  define H7 where "H7 = flipped (count_list [5, 6]) (count_list [4, 5, 6]) H5"
  have i7: "invert ?b H5 = (?b, H7)"
    unfolding invert_single by (simp add: H5 H7_def)
  have H7: "vertices (polys H7 3) = revA" "plane (polys H7 3) = 3"
    "planes H7 3 = \<lparr>pnormal = Vec3 0 0 1, pw = 0\<rparr>"
    "vertices (polys H7 5) = ringG" "plane (polys H7 5) = 5"
    "planes H7 5 = \<lparr>pnormal = Vec3 (- 1) 0 0, pw = 0\<rparr>"
    "vertices (polys H7 6) = ringL" "plane (polys H7 6) = 6"
    "planes H7 6 = \<lparr>pnormal = Vec3 (- 1) 0 0, pw = 0\<rparr>"
    by (simp_all add: H7_def flipped_obs H5 flip_rings negate_plane_eval)
  have b5: "build empty_node [5] H7 = (?n5, H7)"
    by (rule build_own [OF H7(5) H7(6) H7(4) types_more(13)])
       (simp_all add: polygonType_eval dot_def)
  have b6: "build empty_node [6] H7 = (?n6, H7)"
    by (rule build_own [OF H7(8) H7(9) H7(7) types_more(14)])
       (simp_all add: polygonType_eval dot_def)
  have m: "build ?a [5, 6] H7 = (Node (Some 3) (Some ?n5) (Some ?n6) [3], H7)"
    by (rule build_front_back [OF H7(3) H7(4) types_more(9) _ H7(7) types_more(10) _ b5 b6])
       (simp_all add: polygonType_eval)
  define H9 where "H9 = flipped (count_list [3, 5, 6]) (count_list [3, 5, 6, 3, 5, 6]) H7"
  have i9: "invert (Node (Some 3) (Some ?n5) (Some ?n6) [3]) H7 =
              (Node (Some 3) (Some ?n6) (Some ?n5) [3], H9)"
    unfolding invert_eq by (simp add: tree_flips_def H7 H9_def)
  have H9: "vertices (polys H9 3) = triA" "vertices (polys H9 5) = revG"
    "vertices (polys H9 6) = revL"
    by (simp_all add: H9_def flipped_obs H7 flip_rings)
  have run: "fold perform [Invert_a, Invert_b, Clip_b_to_a, Clip_a_to_b, Invert_b, Clip_b_to_a,
                      Invert_b, Merge_b_into_a, Invert_a] ((?a, ?c), cloned)
          = ((Node (Some 3) (Some ?n6) (Some ?n5) [3], ?b), H9)"
    by (simp only: fold_simps perform.simps allPolygons.simps option.case append.simps
        Let_def prod.case i1 i2 c3 c4 i5 c6 i7 m i9)
  show ?thesis
    unfolding intersect_as_specified_def sequence_def two_trees_AB sum.case run Let_def prod.case
    by (simp add: fromPolygons_def rings_of_def H9)
qed

text \<open>
  Claim C3 says that \<open>intersect\<close> inverts both trees first and inverts \<open>b\<close> back before
  the merge. On two crossing triangles the code returns the two pieces of the second
  triangle with the rings \<open>ringK\<close> and \<open>ringF\<close>; the sequence of the specification
  splits the second triangle after it was reversed, and returns the same two pieces
  with their rings starting at another vertex.
\<close>

theorem intersect_not_as_specified:
  "rings_of (CSG_intersect \<lparr>polygons = [0]\<rparr> \<lparr>polygons = [1]\<rparr> heapABC)
     = Inr [triA, ringK, ringF] \<and>
   rings_of (intersect_as_specified \<lparr>polygons = [0]\<rparr> \<lparr>polygons = [1]\<rparr> heapABC)
     = Inr [triA, revL, revG] \<and>
   ringK \<noteq> revL \<and>
   map (\<lambda>r. vertices (polys heapABC r)) [0, 1] = [triA, triB]"
proof -
  have "ringK \<noteq> revL"
    by (simp add: ringK_def revL_def cutB1_def cutB2_def Vertex_def)
  moreover have "map (\<lambda>r. vertices (polys heapABC r)) [0, 1] = [triA, triB]"
    by (simp add: heapABC_eq)
  ultimately show ?thesis
    by (simp only: CSG_intersect_steps code_run specified_run simp_thms)
qed

end
